theory Spec2Isabelle
  imports Complex_Main
begin

section \<open>Python values, strings and exceptions\<close>

text \<open>
  A Python exception is a value: the name of its class and the text \<open>str(e)\<close> gives.
  A function of the source that may raise returns \<open>py_exn + 'a\<close>, \<open>Inl\<close> the exception.
\<close>

datatype py_exn = PyExn (exn_class: string) (exn_str: string)

text \<open>
  The values a tool argument or a JSON payload is made of. \<open>PObject tn\<close> is a value of a
  type \<open>tn\<close> that \<open>json.dumps\<close> cannot serialise (a set, bytes, ...). Floats are left out.
\<close>

datatype pyval =
    PNone
  | PBool bool
  | PInt int
  | PStr string
  | PList "pyval list"
  | PDict "(string \<times> pyval) list"
  | PObject string

text \<open>\<open>str(n)\<close> for an integer: decimal digits, a minus sign when negative.\<close>

fun str_nat :: "nat \<Rightarrow> string" where
  "str_nat n = (if n < 10 then [''0123456789'' ! n] else str_nat (n div 10) @ [''0123456789'' ! (n mod 10)])"

declare str_nat.simps [simp del]

definition str_int :: "int \<Rightarrow> string" where
  "str_int i = (if i < 0 then ''-'' @ str_nat (nat (- i)) else str_nat (nat i))"

text \<open>
  Timestamps and durations are Python floats in the source; they are modelled as exact
  rationals. \<open>fmt_1f\<close> is the format \<open>{x:.1f}\<close>: one decimal, rounded half to even.
\<close>

definition round_half_even :: "rat \<Rightarrow> int" where
  "round_half_even x =
     (let f = \<lfloor>x\<rfloor>; d = x - of_int f
      in if d < 1 / 2 then f else if 1 / 2 < d then f + 1 else if even f then f else f + 1)"

definition fmt_1f :: "rat \<Rightarrow> string" where
  "fmt_1f x =
     (let t = round_half_even (\<bar>x\<bar> * 10)
      in (if x < 0 then ''-'' else []) @ str_nat (nat (t div 10)) @ ''.'' @ str_nat (nat (t mod 10)))"

text \<open>\<open>s.lower()\<close> on the ASCII letters, and the substring test \<open>pat in s\<close>.\<close>

definition lower_char :: "char \<Rightarrow> char" where
  "lower_char c =
     (let n = (of_char c :: nat) in if 65 \<le> n \<and> n \<le> 90 then char_of (n + 32) else c)"

definition lower :: "string \<Rightarrow> string" where
  "lower s = map lower_char s"

fun str_contains :: "string \<Rightarrow> string \<Rightarrow> bool" where
  "str_contains pat [] = (pat = [])"
| "str_contains pat (c # cs) = (take (length pat) (c # cs) = pat \<or> str_contains pat cs)"

section \<open>Messages and the agent state (agent.py)\<close>

record tool_call =
  tc_name :: string
  tc_args :: "(string \<times> pyval) list"
  tc_id :: string

text \<open>
  The content of a message is a text or a list of parts. The system and human messages
  of this program are built from texts and a tool returns a text; the content of a
  reasoner message is whatever the reasoning service sends, of either kind.
\<close>

datatype content = Text string | Parts "pyval list"

text \<open>
  The four message classes. Only an \<open>AIMessage\<close> has the attribute \<open>tool_calls\<close>; a
  \<open>ToolMessage\<close> carries its content, the tool's name and the id of the call it answers.
\<close>

datatype message =
    SystemMessage string
  | HumanMessage string
  | AIMessage content "tool_call list"
  | ToolMessage string string string

definition attribute_error :: py_exn where
  "attribute_error =
     PyExn ''AttributeError''
       ([CHR 0x27] @ ''list'' @ [CHR 0x27] @ '' object has no attribute ''
        @ [CHR 0x27] @ ''lower'' @ [CHR 0x27])"

text \<open>\<open>m.content.lower()\<close>: a list has no method \<open>lower\<close>.\<close>

fun content_lower :: "message \<Rightarrow> py_exn + string" where
  "content_lower (SystemMessage c) = Inr (lower c)"
| "content_lower (HumanMessage c) = Inr (lower c)"
| "content_lower (AIMessage (Text c) tcs) = Inr (lower c)"
| "content_lower (AIMessage (Parts ps) tcs) = Inl attribute_error"
| "content_lower (ToolMessage c n i) = Inr (lower c)"

fun is_system :: "message \<Rightarrow> bool" where
  "is_system (SystemMessage c) = True"
| "is_system m = False"

record AgentState =
  messages :: "message list"
  email :: string
  secret :: string
  current_url :: string
  start_time :: rat
  quiz_count :: int
  max_time :: rat

text \<open>
  \<open>should_continue\<close>: \<open>messages[-1]\<close> raises IndexError on an empty list; a non-empty
  \<open>tool_calls\<close> gives "tools"; otherwise \<open>content.lower()\<close> is evaluated, which raises
  AttributeError on a list; the completion phrases give "end"; the default is "end" too.
\<close>

definition should_continue :: "AgentState \<Rightarrow> py_exn + string" where
  "should_continue state =
     (let msgs = messages state in
      if msgs = [] then Inl (PyExn ''IndexError'' ''list index out of range'')
      else
        let last_message = last msgs in
        if (case last_message of AIMessage c tcs \<Rightarrow> tcs \<noteq> [] | _ \<Rightarrow> False) then Inr ''tools''
        else
          (case content_lower last_message of
             Inl x \<Rightarrow> Inl x
           | Inr c \<Rightarrow>
               if str_contains ''quiz complete'' c \<or> str_contains ''no new url'' c
                  \<or> str_contains ''finished'' c
               then Inr ''end''
               else Inr ''end''))"

section \<open>The rate-limited gateway (RateLimitedLLM)\<close>

text \<open>
  The process: the wall clock \<open>time.time()\<close> reads, the gateway's \<open>last_call_time\<close>
  (one instance for the whole process), and a log of what happened: a graph node entered,
  \<open>time.sleep(d)\<close>, a call of the reasoning service with the times it was issued and it
  returned.
\<close>

datatype node = Agent | Tools

datatype event = Entered node | Slept rat | Called rat rat

record world =
  clock :: rat
  last_call_time :: rat
  events :: "event list"

text \<open>
  What the process does not decide: the reasoning service (the content and tool calls of
  its answer, or the exception it raises, and how long it takes), what a tool call
  returns as text or raises, and how long an Acting step takes. \<open>system_prompt\<close> is the
  constant \<open>SYSTEM_PROMPT\<close>; nothing below depends on its text.
\<close>

record env =
  respond :: "message list \<Rightarrow> py_exn + content \<times> tool_call list"
  latency :: "message list \<Rightarrow> rat"
  run_tool :: "tool_call \<Rightarrow> py_exn + string"
  tools_time :: "tool_call list \<Rightarrow> rat"
  system_prompt :: string

definition min_interval :: rat where
  "min_interval = 60 / 9"

definition time_sleep :: "rat \<Rightarrow> world \<Rightarrow> world" where
  "time_sleep d w = w\<lparr>clock := clock w + d, events := events w @ [Slept d]\<rparr>"

text \<open>
  \<open>invoke\<close>: read the clock, wait out the rest of the interval, store the clock in
  \<open>last_call_time\<close>, then call the service. An exception of the service propagates.
\<close>

definition invoke :: "env \<Rightarrow> message list \<Rightarrow> world \<Rightarrow> world \<times> (py_exn + message)" where
  "invoke e msgs w =
     (let current_time = clock w;
          time_since_last = current_time - last_call_time w;
          w1 = (if time_since_last < min_interval
                then time_sleep (min_interval - time_since_last) w else w);
          w2 = w1\<lparr>last_call_time := clock w1\<rparr>;
          returned = clock w2 + latency e msgs;
          w3 = w2\<lparr>clock := returned, events := events w2 @ [Called (clock w2) returned]\<rparr>
      in (w3, case respond e msgs of Inl x \<Rightarrow> Inl x | Inr (c, tcs) \<Rightarrow> Inr (AIMessage c tcs)))"

text \<open>
  \<open>invoke\<close> cut at \<open>time.sleep\<close>, where a thread lets the others run: \<open>wait_time\<close> is
  what it computes before (the time to sleep, if any), \<open>issue\<close> what it does after
  (store the clock, call the service).
\<close>

definition wait_time :: "world \<Rightarrow> rat option" where
  "wait_time w =
     (let current_time = clock w;
          time_since_last = current_time - last_call_time w
      in if time_since_last < min_interval then Some (min_interval - time_since_last)
         else None)"

definition issue :: "env \<Rightarrow> message list \<Rightarrow> world \<Rightarrow> world \<times> (py_exn + message)" where
  "issue e msgs w1 =
     (let w2 = w1\<lparr>last_call_time := clock w1\<rparr>;
          returned = clock w2 + latency e msgs;
          w3 = w2\<lparr>clock := returned, events := events w2 @ [Called (clock w2) returned]\<rparr>
      in (w3, case respond e msgs of Inl x \<Rightarrow> Inl x | Inr (c, tcs) \<Rightarrow> Inr (AIMessage c tcs)))"

text \<open>
  Invocations one after the other, each after an idle time: the calls of runs that do
  not overlap inside \<open>invoke\<close>.
\<close>

fun invoke_all :: "env \<Rightarrow> (rat \<times> message list) list \<Rightarrow> world \<Rightarrow> world" where
  "invoke_all e [] w = w"
| "invoke_all e ((idle, msgs) # reqs) w =
     invoke_all e reqs (fst (invoke e msgs (w\<lparr>clock := clock w + idle\<rparr>)))"

text \<open>
  Two invocations that overlap, each in its own thread on the one gateway. The first
  reads the clock and \<open>last_call_time\<close> and goes to sleep for \<open>d1\<close>; the second starts
  \<open>delta\<close> later, while the first is asleep and has stored nothing, and sleeps for
  \<open>d2\<close>; each wakes when its own sleep ends, stores the clock and issues its call, the
  first before the second. \<open>None\<close> when the first does not sleep or the second starts
  outside the sleep of the first.
\<close>

definition invoke_overlapped :: "env \<Rightarrow> message list \<Rightarrow> message list \<Rightarrow> rat \<Rightarrow> world \<Rightarrow> world option" where
  "invoke_overlapped e msgs1 msgs2 delta w =
     (case wait_time w of
        None \<Rightarrow> None
      | Some d1 \<Rightarrow>
          if \<not> (0 \<le> delta \<and> delta < d1) then None
          else
            (let start2 = clock w + delta;
                 d2 = (case wait_time (w\<lparr>clock := start2\<rparr>) of None \<Rightarrow> 0 | Some d \<Rightarrow> d);
                 wa = fst (issue e msgs1 (time_sleep d1 w));
                 wb = fst (issue e msgs2 (time_sleep d2 (wa\<lparr>clock := start2\<rparr>)))
             in Some wb))"

text \<open>The times at which the calls of a log were issued, and their spacing.\<close>

definition issue_times :: "event list \<Rightarrow> rat list" where
  "issue_times evs = concat (map (\<lambda>ev. case ev of Called a b \<Rightarrow> [a] | _ \<Rightarrow> []) evs)"

fun spaced :: "rat list \<Rightarrow> bool" where
  "spaced [] = True"
| "spaced [t] = True"
| "spaced (t # u # ts) = (t + min_interval \<le> u \<and> spaced (u # ts))"

section \<open>The graph: call_model, the tool node, the loop, run_agent\<close>

definition context_msg :: "AgentState \<Rightarrow> rat \<Rightarrow> rat \<Rightarrow> string" where
  "context_msg state elapsed_time time_remaining =
     [CHR 0x0A] @ ''Current context:'' @ [CHR 0x0A]
     @ ''- Email: '' @ email state @ [CHR 0x0A]
     @ ''- Secret: '' @ secret state @ [CHR 0x0A]
     @ ''- Current URL: '' @ current_url state @ [CHR 0x0A]
     @ ''- Quiz number: '' @ str_int (quiz_count state) @ [CHR 0x0A]
     @ ''- Time elapsed: '' @ fmt_1f elapsed_time @ ''s'' @ [CHR 0x0A]
     @ ''- Time remaining: '' @ fmt_1f time_remaining @ ''s'' @ [CHR 0x0A]
     @ [CHR 0x0A]
     @ ''Start by scraping the current URL to see the quiz question.''"

text \<open>The conversation \<open>call_model\<close> hands to the gateway; none of what it adds is kept.\<close>

definition prompt :: "env \<Rightarrow> AgentState \<Rightarrow> rat \<Rightarrow> message list" where
  "prompt e state now =
     (let msgs = messages state;
          msgs1 = (if \<not> list_ex is_system msgs then SystemMessage (system_prompt e) # msgs
                   else msgs);
          elapsed_time = now - start_time state;
          time_remaining = max_time state - elapsed_time
      in msgs1 @ [HumanMessage (context_msg state elapsed_time time_remaining)])"

text \<open>\<open>call_model\<close> returns the update \<open>{"messages": [response]}\<close>: its list.\<close>

definition call_model :: "env \<Rightarrow> AgentState \<Rightarrow> world \<Rightarrow> world \<times> (py_exn + message list)" where
  "call_model e state w =
     (case invoke e (prompt e state (clock w)) w of
        (w', Inl x) \<Rightarrow> (w', Inl x)
      | (w', Inr response) \<Rightarrow> (w', Inr [response]))"

text \<open>Entering a node is logged.\<close>

definition enter :: "node \<Rightarrow> world \<Rightarrow> world" where
  "enter nd w = w\<lparr>events := events w @ [Entered nd]\<rparr>"

text \<open>The process after the gateway call of a Reasoning step.\<close>

definition gateway_after :: "env \<Rightarrow> AgentState \<Rightarrow> world \<Rightarrow> world" where
  "gateway_after e s w = fst (invoke e (prompt e s (clock w)) (enter Agent w))"

text \<open>
  The reducer \<open>add_messages\<close> of the \<open>messages\<close> channel appends an update (the ids of
  new messages are fresh); no node returns another key, so no other field is written.
\<close>

definition add_messages :: "message list \<Rightarrow> AgentState \<Rightarrow> AgentState" where
  "add_messages upd state = state\<lparr>messages := messages state @ upd\<rparr>"

text \<open>
  \<open>ToolNode(tools)\<close>: one \<open>ToolMessage\<close> for each tool call of the last message. The
  calls are gathered: the results are collected by the position of the call, so the
  messages are in the order of the calls; an exception a tool raises is not caught, it
  leaves the node and no message of the step is appended. The calls are taken in the
  order of the list here (when several raise, the first of the list).
\<close>

fun tool_messages :: "env \<Rightarrow> tool_call list \<Rightarrow> py_exn + message list" where
  "tool_messages e [] = Inr []"
| "tool_messages e (tc # tcs) =
     (case run_tool e tc of
        Inl x \<Rightarrow> Inl x
      | Inr r \<Rightarrow>
          (case tool_messages e tcs of
             Inl x \<Rightarrow> Inl x
           | Inr ms \<Rightarrow> Inr (ToolMessage r (tc_name tc) (tc_id tc) # ms)))"

definition tool_node :: "env \<Rightarrow> AgentState \<Rightarrow> world \<Rightarrow> world \<times> (py_exn + message list)" where
  "tool_node e state w =
     (case (if messages state = [] then None else Some (last (messages state))) of
        Some (AIMessage c tcs) \<Rightarrow>
          (w\<lparr>clock := clock w + tools_time e tcs\<rparr>, tool_messages e tcs)
      | _ \<Rightarrow> (w, Inl (PyExn ''ValueError'' ''Last message is not an AIMessage'')))"

text \<open>
  The compiled graph: entry point "agent"; after "agent" the conditional edge of
  \<open>should_continue\<close> ("tools" to the tool node, "end" to END); after "tools" back to
  "agent". The first argument counts the node steps the recursion limit still allows.
  After a step the limit is tested before the next nodes are looked at: when the step
  was the last one allowed, GraphRecursionError is raised, also when the step led to END.
  An exception of a node or of \<open>should_continue\<close> leaves the graph at once. The result is
  the process, the exception if one ended the run, and the graph's state at that point.
\<close>

text \<open>The exception of the recursion limit, its message abridged.\<close>

definition recursion_error :: py_exn where
  "recursion_error =
     PyExn ''GraphRecursionError'' ''Recursion limit reached without hitting a stop condition''"

fun graph_steps :: "env \<Rightarrow> nat \<Rightarrow> node \<Rightarrow> AgentState \<Rightarrow> world \<Rightarrow> world \<times> py_exn option \<times> AgentState" where
  "graph_steps e 0 nd state w =
     (w, Some recursion_error, state)"
| "graph_steps e (Suc n) Agent state w =
     (case call_model e state (enter Agent w) of
        (w', Inl x) \<Rightarrow> (w', Some x, state)
      | (w', Inr upd) \<Rightarrow>
          (let state' = add_messages upd state in
           case should_continue state' of
             Inl x \<Rightarrow> (w', Some x, state')
           | Inr r \<Rightarrow>
               if r = ''tools'' then graph_steps e n Tools state' w'
               else if r = ''end''
               then (w', if n = 0 then Some recursion_error else None, state')
               else (w', Some (PyExn ''KeyError'' r), state')))"
| "graph_steps e (Suc n) Tools state w =
     (case tool_node e state (enter Tools w) of
        (w', Inl x) \<Rightarrow> (w', Some x, state)
      | (w', Inr upd) \<Rightarrow> graph_steps e n Agent (add_messages upd state) w')"

definition recursion_limit :: nat where
  "recursion_limit = 200"

datatype report =
    Success (elapsed_time: rat) (reported_quiz_count: int)
  | Failure (error: string) (elapsed_time: rat)

definition initial_state :: "string \<Rightarrow> string \<Rightarrow> string \<Rightarrow> rat \<Rightarrow> AgentState" where
  "initial_state em sec initial_url now =
     \<lparr>messages = [HumanMessage (''Solve the quiz at this URL: '' @ initial_url)],
      email = em, secret = sec, current_url = initial_url,
      start_time = now, quiz_count = 1, max_time = 180\<rparr>"

definition run_graph :: "env \<Rightarrow> string \<Rightarrow> string \<Rightarrow> string \<Rightarrow> world \<Rightarrow> world \<times> py_exn option \<times> AgentState" where
  "run_graph e em sec initial_url w =
     graph_steps e recursion_limit Agent (initial_state em sec initial_url (clock w)) w"

definition run_agent :: "env \<Rightarrow> string \<Rightarrow> string \<Rightarrow> string \<Rightarrow> world \<Rightarrow> world \<times> report" where
  "run_agent e em sec initial_url w =
     (case run_graph e em sec initial_url w of
        (w', None, final_state) \<Rightarrow>
          (w', Success (clock w' - clock w) (quiz_count final_state))
      | (w', Some x, final_state) \<Rightarrow>
          (w', Failure (exn_str x) (clock w' - clock w)))"

section \<open>What a run did\<close>

text \<open>
  The node steps of a log, in order; a round trip is complete when its Acting step has
  been entered. \<open>requested\<close> lists the tool calls (name and id) of every reasoner message
  of a conversation, \<open>answered\<close> the (name, id) of every tool-result message.
\<close>

definition steps_of :: "event list \<Rightarrow> node list" where
  "steps_of evs = concat (map (\<lambda>ev. case ev of Entered nd \<Rightarrow> [nd] | _ \<Rightarrow> []) evs)"

definition round_trips :: "event list \<Rightarrow> nat" where
  "round_trips evs = length (filter (\<lambda>nd. nd = Tools) (steps_of evs))"

definition call_key :: "tool_call \<Rightarrow> string \<times> string" where
  "call_key tc = (tc_name tc, tc_id tc)"

definition requested :: "message list \<Rightarrow> (string \<times> string) list" where
  "requested msgs =
     concat (map (\<lambda>m. case m of AIMessage c tcs \<Rightarrow> map call_key tcs | _ \<Rightarrow> []) msgs)"

definition answered :: "message list \<Rightarrow> (string \<times> string) list" where
  "answered msgs =
     concat (map (\<lambda>m. case m of ToolMessage c n i \<Rightarrow> [(n, i)] | _ \<Rightarrow> []) msgs)"

section \<open>download_file (tools/download_file.py)\<close>

text \<open>\<open>os.path.basename\<close> and \<open>os.path.join\<close> of two parts, as posixpath has them.\<close>

definition basename :: "string \<Rightarrow> string" where
  "basename p = rev (takeWhile (\<lambda>c. c \<noteq> CHR ''/'') (rev p))"

definition path_join :: "string \<Rightarrow> string \<Rightarrow> string" where
  "path_join a b =
     (if b \<noteq> [] \<and> hd b = CHR ''/'' then b
      else if a = [] \<or> last a = CHR ''/'' then a @ b
      else a @ ''/'' @ b)"

text \<open>
  The file system, by path as the program writes it: a file with its bytes, or a
  directory. \<open>os.makedirs(p, exist_ok=True)\<close> raises when \<open>p\<close> is a file. \<open>open(p, 'wb')\<close>
  raises when \<open>p\<close> names a directory: one that exists, or a path whose last component is
  empty, \<open>.\<close> or \<open>..\<close>; otherwise it creates the file empty. Other failures of the
  operating system (permissions, a full disk, symbolic links) are not modelled.
\<close>

datatype entry = File string | Dir

type_synonym fs = "string \<Rightarrow> entry option"

definition makedirs :: "fs \<Rightarrow> string \<Rightarrow> py_exn + fs" where
  "makedirs f p =
     (case f p of
        Some (File b) \<Rightarrow> Inl (PyExn ''FileExistsError'' p)
      | _ \<Rightarrow> Inr (f(p \<mapsto> Dir)))"

definition open_wb :: "fs \<Rightarrow> string \<Rightarrow> py_exn + fs" where
  "open_wb f p =
     (if basename p \<in> {[], ''.'', ''..''} \<or> f p = Some Dir
      then Inl (PyExn ''IsADirectoryError'' p)
      else Inr (f(p \<mapsto> File [])))"

text \<open>
  What \<open>session.get\<close> gives: an exception (no connection, the 60 seconds passed), or a
  response: its status, its Content-Length header, the chunks of its body, and the
  exception that ends the body early, if any.
\<close>

datatype get_result =
    GetRaised py_exn
  | GetResponse int "string option" "string list" "py_exn option"

text \<open>
  The library functions the tool calls: the path of \<open>urlparse(url)\<close> (it raises
  ValueError on some malformed URLs), the built-in \<open>int\<close> on a string (it raises
  ValueError on text that is no integer), and the network.
\<close>

record dl_env =
  urlparse_path :: "string \<Rightarrow> py_exn + string"
  py_int :: "string \<Rightarrow> py_exn + int"
  http_get :: "string \<Rightarrow> get_result"

definition cross_mark :: string where
  "cross_mark = [CHR 0xE2, CHR 0x9D, CHR 0x8C]"

text \<open>The name the file gets: the argument, or the last part of the URL's path.\<close>

definition chosen_filename :: "dl_env \<Rightarrow> string \<Rightarrow> string option \<Rightarrow> py_exn + string" where
  "chosen_filename d url filename =
     (case (case filename of
              None \<Rightarrow>
                (case urlparse_path d url of
                   Inl x \<Rightarrow> Inl x
                 | Inr path \<Rightarrow>
                     (let f = basename path in Inr (if f = [] then ''downloaded_file'' else f)))
            | Some f \<Rightarrow> Inr f) of
        Inl x \<Rightarrow> Inl x
      | Inr filename1 \<Rightarrow> Inr (basename filename1))"

text \<open>The body of the \<open>try\<close>: the file system after it, and what it returned or raised.\<close>

definition download_file_try :: "dl_env \<Rightarrow> string \<Rightarrow> string option \<Rightarrow> fs \<Rightarrow> fs \<times> (py_exn + string)" where
  "download_file_try d url filename f =
     (case makedirs f ''LLMFiles'' of
        Inl x \<Rightarrow> (f, Inl x)
      | Inr f1 \<Rightarrow>
          (case chosen_filename d url filename of
             Inl x \<Rightarrow> (f1, Inl x)
           | Inr filename2 \<Rightarrow>
               (let filepath = path_join ''LLMFiles'' filename2 in
                case http_get d url of
                  GetRaised x \<Rightarrow> (f1, Inl x)
                | GetResponse status content_length chunks broken \<Rightarrow>
                    if status \<noteq> 200
                    then (f1, Inr (''Error: '' @ ''Failed to download: HTTP '' @ str_int status))
                    else
                      (case (case content_length of
                               None \<Rightarrow> Inr 0
                             | Some cl \<Rightarrow> if cl = [] then Inr 0 else py_int d cl) of
                         Inl x \<Rightarrow> (f1, Inl x)
                       | Inr n \<Rightarrow>
                           (case open_wb f1 filepath of
                              Inl x \<Rightarrow> (f1, Inl x)
                            | Inr f2 \<Rightarrow>
                                (let f3 = f2(filepath \<mapsto> File (concat chunks)) in
                                 case broken of
                                   Some x \<Rightarrow> (f3, Inl x)
                                 | None \<Rightarrow> (f3, Inr filepath)))))))"

text \<open>\<open>except Exception\<close> turns whatever the body raised into the text returned.\<close>

definition download_file :: "dl_env \<Rightarrow> string \<Rightarrow> string option \<Rightarrow> fs \<Rightarrow> fs \<times> string" where
  "download_file d url filename f =
     (case download_file_try d url filename f of
        (f', Inl x) \<Rightarrow> (f', ''Error: '' @ cross_mark @ '' Error downloading file: '' @ exn_str x)
      | (f', Inr r) \<Rightarrow> (f', r))"

section \<open>post_request (tools/send_request.py)\<close>

text \<open>
  What \<open>session.post\<close> gives: an exception, or a response with its status, what
  \<open>response.json()\<close> gives and what \<open>response.text()\<close> gives. \<open>json_dumps\<close> is
  \<open>json.dumps\<close> with its \<open>indent\<close>.
\<close>

datatype post_result =
    PostRaised py_exn
  | PostResponse int "py_exn + pyval" "py_exn + string"

record post_env =
  json_dumps :: "nat option \<Rightarrow> pyval \<Rightarrow> py_exn + string"
  http_post :: "string \<Rightarrow> (string \<times> pyval) list \<Rightarrow> post_result"

text \<open>
  The names the module send_request.py binds: its imports (\<open>aiohttp\<close>,
  \<open>json as json_module\<close>, \<open>tool\<close>) and its one function. Reading any other global name
  that is no built-in raises NameError.
\<close>

definition module_names :: "string list" where
  "module_names = [''aiohttp'', ''json_module'', ''tool'', ''post_request'']"

definition read_global :: "string \<Rightarrow> py_exn + string" where
  "read_global n =
     (if n \<in> set module_names then Inr n
      else Inl (PyExn ''NameError'' (''name '' @ [CHR 0x27] @ n @ [CHR 0x27] @ '' is not defined'')))"

definition error_result :: "string \<Rightarrow> pyval" where
  "error_result error_msg = PDict [(''error'', PStr error_msg), (''status_code'', PInt (- 1))]"

text \<open>The body of the outer \<open>try\<close>.\<close>

definition post_request_try :: "post_env \<Rightarrow> string \<Rightarrow> (string \<times> pyval) list \<Rightarrow> py_exn + string" where
  "post_request_try p url payload =
     (case json_dumps p None (PDict payload) of
        Inl x \<Rightarrow>
          json_dumps p None (error_result (''Failed to serialize payload: '' @ exn_str x))
      | Inr payload_json \<Rightarrow>
          (case http_post p url payload of
             PostRaised x \<Rightarrow> Inl x
           | PostResponse status_code js txt \<Rightarrow>
               (case (case js of
                        Inr v \<Rightarrow> Inr v
                      | Inl x \<Rightarrow>
                          (case txt of
                             Inl y \<Rightarrow> Inl y
                           | Inr response_text \<Rightarrow> Inr (PDict [(''text'', PStr response_text)]))) of
                  Inl y \<Rightarrow> Inl y
                | Inr response_data \<Rightarrow>
                    json_dumps p (Some 2)
                      (PDict [(''status_code'', PInt status_code), (''response'', response_data)]))))"

text \<open>
  The \<open>except\<close> clauses of the outer \<open>try\<close>, in order. The first one evaluates
  \<open>asyncio.TimeoutError\<close> before it can match anything: an exception raised there leaves
  the function.
\<close>

definition post_request_except :: "post_env \<Rightarrow> py_exn \<Rightarrow> py_exn + string" where
  "post_request_except p x =
     (case read_global ''asyncio'' of
        Inl name_error \<Rightarrow> Inl name_error
      | Inr m \<Rightarrow>
          if exn_class x = ''TimeoutError''
          then json_dumps p None (error_result ''Request timed out after 30 seconds'')
          else json_dumps p None
                 (error_result (cross_mark @ '' Error sending POST request: '' @ exn_str x)))"

definition post_request :: "post_env \<Rightarrow> string \<Rightarrow> (string \<times> pyval) list \<Rightarrow> py_exn + string" where
  "post_request p url payload =
     (case post_request_try p url payload of
        Inl x \<Rightarrow> post_request_except p x
      | Inr r \<Rightarrow> Inr r)"

section \<open>Example runs and inputs\<close>

text \<open>
  The process as it starts (\<open>last_call_time = 0\<close>), and one that called 3 seconds ago,
  without and with that call in its log.
\<close>

definition w0 :: world where
  "w0 = \<lparr>clock = 1000, last_call_time = 0, events = []\<rparr>"

definition w_recent :: world where
  "w_recent = \<lparr>clock = 1003, last_call_time = 1000, events = []\<rparr>"

definition w_called :: world where
  "w_called = \<lparr>clock = 1003, last_call_time = 1000, events = [Called 1000 1002]\<rparr>"

text \<open>A reasoner that answers with a question and no tool call, in 2 seconds.\<close>

definition silent_env :: env where
  "silent_env =
     \<lparr>respond = (\<lambda>msgs. Inr (Text ''Which quiz do you mean?'', [])),
      latency = (\<lambda>msgs. 2),
      run_tool = (\<lambda>tc. Inr []),
      tools_time = (\<lambda>tcs. 0),
      system_prompt = ''You are an autonomous agent.''\<rparr>"

definition scrape_call :: tool_call where
  "scrape_call =
     \<lparr>tc_name = ''get_rendered_html'',
      tc_args = [(''url'', PStr ''https://quiz.example/q2'')],
      tc_id = ''call_2''\<rparr>"

definition submit_call :: tool_call where
  "submit_call =
     \<lparr>tc_name = ''post_request'',
      tc_args = [(''url'', PStr ''https://quiz.example/submit''),
                 (''payload'', PDict [(''answer'', PInt 42)])],
      tc_id = ''call_1''\<rparr>"

text \<open>A reasoner that asks for the same tool call whatever it is told.\<close>

definition busy_env :: env where
  "busy_env = silent_env\<lparr>respond := (\<lambda>msgs. Inr (Text [], [scrape_call]))\<rparr>"

text \<open>A reasoner whose answer is a list with one text part, and no tool call.\<close>

definition parts_env :: env where
  "parts_env =
     silent_env\<lparr>respond := (\<lambda>msgs.
       Inr (Parts [PDict [(''type'', PStr ''text''), (''text'', PStr ''The quiz is done.'')]],
            []))\<rparr>"

fun is_tool :: "message \<Rightarrow> bool" where
  "is_tool (ToolMessage c n i) = True"
| "is_tool m = False"

text \<open>
  A run that chains: the reasoner submits the answer of the first quiz, the reply names
  the next quiz, the reasoner scrapes that page, then declares the chain complete.
\<close>

definition submit_reply :: string where
  \<open>submit_reply =
     ''{"status_code": 200, "response": {"correct": true, "url": "https://quiz.example/q2"}}''\<close>

definition chain_env :: env where
  "chain_env =
     \<lparr>respond = (\<lambda>msgs.
         if length (filter is_tool msgs) = 0 then Inr (Text [], [submit_call])
         else if length (filter is_tool msgs) = 1 then Inr (Text [], [scrape_call])
         else Inr (Text ''Quiz complete'', [])),
      latency = (\<lambda>msgs. 2),
      run_tool = (\<lambda>tc. if tc_name tc = ''post_request'' then Inr submit_reply
                        else Inr ''<html></html>''),
      tools_time = (\<lambda>tcs. 1),
      system_prompt = ''You are an autonomous agent.''\<rparr>"

text \<open>Two states with the same conversation: one 1000 seconds old, one just started.\<close>

definition late_state :: AgentState where
  "late_state =
     \<lparr>messages = [HumanMessage ''Solve the quiz at this URL: https://quiz.example/q1'',
                  AIMessage (Text ''Working on it'') [scrape_call]],
      email = ''a@b.c'', secret = ''s3cret'', current_url = ''https://quiz.example/q1'',
      start_time = 0, quiz_count = 1, max_time = 180\<rparr>"

definition fresh_state :: AgentState where
  "fresh_state = late_state\<lparr>start_time := 1000\<rparr>"

text \<open>Servers answering a download with 404, with 200 and with 203, each with a body.\<close>

definition dl_404 :: dl_env where
  "dl_404 =
     \<lparr>urlparse_path = (\<lambda>url. Inr ''/files/data.csv''),
      py_int = (\<lambda>t. if t = ''9'' then Inr 9 else Inl (PyExn ''ValueError'' t)),
      http_get = (\<lambda>url. GetResponse 404 (Some ''9'') [''Not '', ''Found''] None)\<rparr>"

definition dl_200 :: dl_env where
  "dl_200 = dl_404\<lparr>http_get := (\<lambda>url. GetResponse 200 (Some ''9'') [''col1,'', ''col2''] None)\<rparr>"

definition dl_203 :: dl_env where
  "dl_203 = dl_404\<lparr>http_get := (\<lambda>url. GetResponse 203 (Some ''9'') [''col1,'', ''col2''] None)\<rparr>"

text \<open>A submission whose payload serialises and whose request times out.\<close>

definition post_timeout :: post_env where
  \<open>post_timeout =
     \<lparr>json_dumps = (\<lambda>ind v. Inr ''{"answer": 42}''),
      http_post = (\<lambda>url payload. PostRaised (PyExn ''TimeoutError'' []))\<rparr>\<close>

text \<open>
  The chained run again, its tool post_request being the function above with the request
  that times out.
\<close>

definition post_request_tool :: "post_env \<Rightarrow> tool_call \<Rightarrow> py_exn + string" where
  "post_request_tool p tc =
     (case (map_of (tc_args tc) ''url'', map_of (tc_args tc) ''payload'') of
        (Some (PStr url), Some (PDict payload)) \<Rightarrow> post_request p url payload
      | _ \<Rightarrow> Inr ''Error: invalid arguments'')"

definition timeout_env :: env where
  "timeout_env =
     chain_env\<lparr>run_tool := (\<lambda>tc.
       if tc_name tc = ''post_request'' then post_request_tool post_timeout tc
       else Inr ''<html></html>'')\<rparr>"

section \<open>The steps of the graph\<close>

lemma steps_of_append: "steps_of (xs @ ys) = steps_of xs @ steps_of ys"
  by (simp add: steps_of_def)

lemma steps_of_simps [simp]:
  "steps_of [] = []"
  "steps_of (Entered nd # evs) = nd # steps_of evs"
  "steps_of (Slept d # evs) = steps_of evs"
  "steps_of (Called a b # evs) = steps_of evs"
  by (simp_all add: steps_of_def)

lemma should_continue_ai:
  "should_continue (add_messages [AIMessage c tcs] s) =
     (if tcs \<noteq> [] then Inr ''tools''
      else case c of Text t \<Rightarrow> Inr ''end'' | Parts ps \<Rightarrow> Inl attribute_error)"
  by (cases c) (simp_all add: should_continue_def add_messages_def Let_def)

lemma should_continue_last_ai:
  "messages state \<noteq> [] \<Longrightarrow> last (messages state) = AIMessage c tcs \<Longrightarrow>
   should_continue state =
     (if tcs \<noteq> [] then Inr ''tools''
      else case c of Text t \<Rightarrow> Inr ''end'' | Parts ps \<Rightarrow> Inl attribute_error)"
  by (cases c) (simp_all add: should_continue_def Let_def)

lemma clock_enter [simp]: "clock (enter nd w) = clock w"
  by (simp add: enter_def)

lemma graph_steps_Agent:
  "graph_steps e (Suc n) Agent s w =
     (case respond e (prompt e s (clock w)) of
        Inl x \<Rightarrow> (gateway_after e s w, Some x, s)
      | Inr (c, tcs) \<Rightarrow>
          if tcs \<noteq> []
          then graph_steps e n Tools (add_messages [AIMessage c tcs] s) (gateway_after e s w)
          else (gateway_after e s w,
                (case c of
                   Parts ps \<Rightarrow> Some attribute_error
                 | Text t \<Rightarrow> if n = 0 then Some recursion_error else None),
                add_messages [AIMessage c []] s))"
  by (simp add: call_model_def gateway_after_def invoke_def Let_def should_continue_ai
           split: sum.splits prod.splits content.splits)

lemma graph_steps_Tools:
  "graph_steps e (Suc n) Tools s w =
     (case (if messages s = [] then None else Some (last (messages s))) of
        Some (AIMessage c tcs) \<Rightarrow>
          (case tool_messages e tcs of
             Inl x \<Rightarrow> ((enter Tools w)\<lparr>clock := clock w + tools_time e tcs\<rparr>, Some x, s)
           | Inr ms \<Rightarrow>
               graph_steps e n Agent (add_messages ms s)
                 ((enter Tools w)\<lparr>clock := clock w + tools_time e tcs\<rparr>))
      | _ \<Rightarrow> (enter Tools w, Some (PyExn ''ValueError'' ''Last message is not an AIMessage''), s))"
  by (simp add: tool_node_def split: option.splits message.splits sum.splits)

declare graph_steps.simps(2,3) [simp del]

lemma graph_steps_Agent_pos:
  "0 < n \<Longrightarrow> graph_steps e n Agent s w =
     (case respond e (prompt e s (clock w)) of
        Inl x \<Rightarrow> (gateway_after e s w, Some x, s)
      | Inr (c, tcs) \<Rightarrow>
          if tcs \<noteq> []
          then graph_steps e (n - 1) Tools (add_messages [AIMessage c tcs] s) (gateway_after e s w)
          else (gateway_after e s w,
                (case c of
                   Parts ps \<Rightarrow> Some attribute_error
                 | Text t \<Rightarrow> if n - 1 = 0 then Some recursion_error else None),
                add_messages [AIMessage c []] s))"
  using graph_steps_Agent [of e "n - 1" s w] by simp

lemma graph_steps_Tools_pos:
  "0 < n \<Longrightarrow> graph_steps e n Tools s w =
     (case (if messages s = [] then None else Some (last (messages s))) of
        Some (AIMessage c tcs) \<Rightarrow>
          (case tool_messages e tcs of
             Inl x \<Rightarrow> ((enter Tools w)\<lparr>clock := clock w + tools_time e tcs\<rparr>, Some x, s)
           | Inr ms \<Rightarrow>
               graph_steps e (n - 1) Agent (add_messages ms s)
                 ((enter Tools w)\<lparr>clock := clock w + tools_time e tcs\<rparr>))
      | _ \<Rightarrow> (enter Tools w, Some (PyExn ''ValueError'' ''Last message is not an AIMessage''), s))"
  using graph_steps_Tools [of e "n - 1" s w] by simp

lemma steps_gateway_after: "steps_of (events (gateway_after e s w)) = steps_of (events w) @ [Agent]"
  by (simp add: gateway_after_def invoke_def Let_def time_sleep_def enter_def steps_of_append)

lemma steps_enter: "steps_of (events (enter nd w)) = steps_of (events w) @ [nd]"
  by (simp add: enter_def steps_of_append)

lemma graph_steps_length:
  "graph_steps e n nd s w = (w', out, s') \<Longrightarrow>
   length (steps_of (events w')) \<le> length (steps_of (events w)) + n"
proof (induction n arbitrary: nd s w)
  case 0
  then show ?case by simp
next
  case (Suc n)
  show ?case
  proof (cases nd)
    case Agent
    with Suc.prems show ?thesis
      by (auto simp: graph_steps_Agent steps_gateway_after split: sum.splits if_splits
               dest!: Suc.IH)
  next
    case Tools
    with Suc.prems show ?thesis
      by (auto simp: graph_steps_Tools steps_enter
               split: option.splits message.splits sum.splits if_splits dest!: Suc.IH)
  qed
qed

lemma graph_steps_round_trips:
  "graph_steps e n nd s w = (w', out, s') \<Longrightarrow>
   round_trips (events w') \<le> round_trips (events w) + (n + (if nd = Tools then 1 else 0)) div 2"
proof (induction n arbitrary: nd s w)
  case 0
  then show ?case by simp
next
  case (Suc n)
  show ?case
  proof (cases nd)
    case Agent
    with Suc.prems show ?thesis
      by (auto simp: graph_steps_Agent steps_gateway_after round_trips_def
               split: sum.splits if_splits dest!: Suc.IH)
  next
    case Tools
    with Suc.prems show ?thesis
      by (auto simp: graph_steps_Tools steps_enter round_trips_def
               split: option.splits message.splits sum.splits if_splits dest!: Suc.IH)
  qed
qed

text \<open>What the tool node appends, and when it raises.\<close>

lemma tool_messages_raises:
  "tool_messages e tcs = Inl x \<Longrightarrow> \<exists>tc \<in> set tcs. run_tool e tc = Inl x"
  by (induction tcs) (auto split: sum.splits)

lemma tool_messages_total:
  "\<forall>tc. \<exists>r. run_tool e tc = Inr r \<Longrightarrow> \<exists>ms. tool_messages e tcs = Inr ms"
proof (induction tcs)
  case Nil
  then show ?case by simp
next
  case (Cons tc tcs)
  then obtain r ms where "run_tool e tc = Inr r" "tool_messages e tcs = Inr ms"
    by blast
  then show ?case by simp
qed

text \<open>A reasoner that always asks for a tool never lets the run reach END.\<close>

lemma graph_steps_never_ends:
  assumes always: "\<forall>msgs. \<exists>c tcs. respond e msgs = Inr (c, tcs) \<and> tcs \<noteq> []"
  shows "graph_steps e n nd s w = (w', out, s') \<Longrightarrow> out \<noteq> None"
proof (induction n arbitrary: nd s w)
  case 0
  then show ?case by auto
next
  case (Suc n)
  show ?case
  proof (cases nd)
    case Agent
    obtain c tcs where r: "respond e (prompt e s (clock w)) = Inr (c, tcs)" "tcs \<noteq> []"
      using always by blast
    with Suc.prems Agent show ?thesis
      by (auto simp: graph_steps_Agent dest!: Suc.IH)
  next
    case Tools
    with Suc.prems show ?thesis
      by (auto simp: graph_steps_Tools
               split: option.splits message.splits sum.splits if_splits dest!: Suc.IH)
  qed
qed

text \<open>With tools that do not raise, it runs into the recursion limit.\<close>

lemma graph_steps_always_tools:
  assumes always: "\<forall>msgs. \<exists>c tcs. respond e msgs = Inr (c, tcs) \<and> tcs \<noteq> []"
    and tools: "\<forall>tc. \<exists>r. run_tool e tc = Inr r"
  shows "(nd = Tools \<longrightarrow> messages s \<noteq> [] \<and> (\<exists>c tcs. last (messages s) = AIMessage c tcs)) \<Longrightarrow>
    graph_steps e n nd s w = (w', out, s') \<Longrightarrow>
    out = Some recursion_error
    \<and> length (steps_of (events w')) = length (steps_of (events w)) + n
    \<and> round_trips (events w') = round_trips (events w) + (n + (if nd = Tools then 1 else 0)) div 2"
proof (induction n arbitrary: nd s w)
  case 0
  then show ?case by simp
next
  case (Suc n)
  show ?case
  proof (cases nd)
    case Agent
    obtain c tcs where r: "respond e (prompt e s (clock w)) = Inr (c, tcs)" "tcs \<noteq> []"
      using always by blast
    have g: "graph_steps e n Tools (add_messages [AIMessage c tcs] s) (gateway_after e s w) = (w', out, s')"
      using Suc.prems(2) Agent r by (simp add: graph_steps_Agent)
    have "out = Some recursion_error
      \<and> length (steps_of (events w')) = length (steps_of (events (gateway_after e s w))) + n
      \<and> round_trips (events w') = round_trips (events (gateway_after e s w)) + (n + (if Tools = Tools then 1 else 0)) div 2"
      by (rule Suc.IH [OF _ g]) (simp add: add_messages_def)
    then show ?thesis using Agent
      by (simp add: steps_gateway_after round_trips_def)
  next
    case Tools
    from Suc.prems(1) Tools obtain c tcs where l: "messages s \<noteq> []" "last (messages s) = AIMessage c tcs"
      by blast
    obtain ms where ms: "tool_messages e tcs = Inr ms"
      using tool_messages_total [OF tools] by blast
    let ?w1 = "(enter Tools w)\<lparr>clock := clock w + tools_time e tcs\<rparr>"
    have g: "graph_steps e n Agent (add_messages ms s) ?w1 = (w', out, s')"
      using Suc.prems(2) Tools l ms by (simp add: graph_steps_Tools)
    have "out = Some recursion_error
      \<and> length (steps_of (events w')) = length (steps_of (events ?w1)) + n
      \<and> round_trips (events w') = round_trips (events ?w1) + (n + (if Agent = Tools then 1 else 0)) div 2"
      by (rule Suc.IH [OF _ g]) simp
    then show ?thesis using Tools
      by (simp add: steps_enter round_trips_def)
  qed
qed

text \<open>Requests and answers along the steps.\<close>

lemma requested_append [simp]: "requested (xs @ ys) = requested xs @ requested ys"
  by (simp add: requested_def)

lemma answered_append [simp]: "answered (xs @ ys) = answered xs @ answered ys"
  by (simp add: answered_def)

lemma answered_tool_messages:
  "tool_messages e tcs = Inr ms \<Longrightarrow> answered ms = map call_key tcs \<and> requested ms = []"
proof (induction tcs arbitrary: ms)
  case Nil
  then show ?case by (simp add: answered_def requested_def)
next
  case (Cons tc tcs)
  then obtain r ms' where "run_tool e tc = Inr r" "tool_messages e tcs = Inr ms'"
    "ms = ToolMessage r (tc_name tc) (tc_id tc) # ms'"
    by (auto split: sum.splits)
  with Cons.IH [of ms'] show ?case
    by (simp add: answered_def requested_def call_key_def)
qed

lemma requested_ai [simp]: "requested [AIMessage c tcs] = map call_key tcs"
  by (simp add: requested_def)

lemma answered_ai [simp]: "answered [AIMessage c tcs] = []"
  by (simp add: answered_def)

text \<open>
  In a run that reaches END, and in a run cut by the recursion limit after a whole number
  of round trips whose tools did not raise, every requested call has its result, in the
  order of the requests.
\<close>

lemma graph_steps_answers:
  "(nd = Agent \<longrightarrow> answered (messages s) = requested (messages s)) \<Longrightarrow>
   (nd = Tools \<longrightarrow> (\<exists>c tcs. messages s \<noteq> [] \<and> last (messages s) = AIMessage c tcs
       \<and> answered (messages s) @ map call_key tcs = requested (messages s))) \<Longrightarrow>
   graph_steps e n nd s w = (w', out, s') \<Longrightarrow>
   out = None \<or> (even (n + (if nd = Tools then 1 else 0)) \<and> (\<forall>tc. \<exists>r. run_tool e tc = Inr r)) \<Longrightarrow>
   answered (messages s') = requested (messages s')"
proof (induction n arbitrary: nd s w)
  case 0
  then show ?case by (cases nd) auto
next
  case (Suc n)
  show ?case
  proof (cases nd)
    case Agent
    show ?thesis
    proof (cases "respond e (prompt e s (clock w))")
      case (Inl x)
      with Suc.prems Agent show ?thesis by (simp add: graph_steps_Agent)
    next
      case (Inr p)
      obtain c tcs where p: "p = (c, tcs)" by (cases p)
      show ?thesis
      proof (cases "tcs = []")
        case True
        with Suc.prems Agent Inr p show ?thesis
          by (auto simp: graph_steps_Agent add_messages_def)
      next
        case False
        have g: "graph_steps e n Tools (add_messages [AIMessage c tcs] s) (gateway_after e s w) = (w', out, s')"
          using Suc.prems(3) Agent Inr p False by (simp add: graph_steps_Agent)
        show ?thesis
        proof (rule Suc.IH [OF _ _ g])
          show "Tools = Agent \<longrightarrow> answered (messages (add_messages [AIMessage c tcs] s)) =
             requested (messages (add_messages [AIMessage c tcs] s))" by simp
          show "Tools = Tools \<longrightarrow> (\<exists>c' tcs'. messages (add_messages [AIMessage c tcs] s) \<noteq> [] \<and>
              last (messages (add_messages [AIMessage c tcs] s)) = AIMessage c' tcs' \<and>
              answered (messages (add_messages [AIMessage c tcs] s)) @ map call_key tcs' =
              requested (messages (add_messages [AIMessage c tcs] s)))"
            using Suc.prems(1) Agent by (simp add: add_messages_def)
          show "out = None \<or> (even (n + (if Tools = Tools then 1 else 0)) \<and> (\<forall>tc. \<exists>r. run_tool e tc = Inr r))"
            using Suc.prems(4) Agent by auto
        qed
      qed
    qed
  next
    case Tools
    from Suc.prems(2) Tools obtain c tcs where l: "messages s \<noteq> []" "last (messages s) = AIMessage c tcs"
      "answered (messages s) @ map call_key tcs = requested (messages s)"
      by blast
    let ?w1 = "(enter Tools w)\<lparr>clock := clock w + tools_time e tcs\<rparr>"
    show ?thesis
    proof (cases "tool_messages e tcs")
      case (Inl x)
      then have "out = Some x" using Suc.prems(3) Tools l by (simp add: graph_steps_Tools)
      moreover have "\<not> (\<forall>tc. \<exists>r. run_tool e tc = Inr r)"
      proof
        assume a: "\<forall>tc. \<exists>r. run_tool e tc = Inr r"
        from tool_messages_raises [OF Inl] obtain tc where "run_tool e tc = Inl x" by blast
        moreover from a obtain r where "run_tool e tc = Inr r" by blast
        ultimately show False by simp
      qed
      ultimately show ?thesis using Suc.prems(4) by blast
    next
      case (Inr ms)
      have g: "graph_steps e n Agent (add_messages ms s) ?w1 = (w', out, s')"
        using Suc.prems(3) Tools l Inr by (simp add: graph_steps_Tools)
      show ?thesis
      proof (rule Suc.IH [OF _ _ g])
        show "Agent = Agent \<longrightarrow> answered (messages (add_messages ms s)) =
               requested (messages (add_messages ms s))"
          using l(3) answered_tool_messages [OF Inr] by (simp add: add_messages_def)
        show "Agent = Tools \<longrightarrow> (\<exists>c' tcs'. messages (add_messages ms s) \<noteq> [] \<and>
                last (messages (add_messages ms s)) = AIMessage c' tcs' \<and>
                answered (messages (add_messages ms s)) @ map call_key tcs' =
                requested (messages (add_messages ms s)))" by simp
        show "out = None \<or> (even (n + (if Agent = Tools then 1 else 0)) \<and> (\<forall>tc. \<exists>r. run_tool e tc = Inr r))"
          using Suc.prems(4) Tools by auto
      qed
    qed
  qed
qed

text \<open>No step writes a field other than the conversation.\<close>

lemma graph_steps_fields:
  "graph_steps e n nd s w = (w', out, s') \<Longrightarrow>
   email s' = email s \<and> secret s' = secret s \<and> current_url s' = current_url s
   \<and> start_time s' = start_time s \<and> quiz_count s' = quiz_count s \<and> max_time s' = max_time s"
proof (induction n arbitrary: nd s w)
  case 0
  then show ?case by simp
next
  case (Suc n)
  show ?case
  proof (cases nd)
    case Agent
    with Suc.prems show ?thesis
      by (auto simp: graph_steps_Agent add_messages_def split: sum.splits if_splits dest!: Suc.IH)
  next
    case Tools
    with Suc.prems show ?thesis
      by (auto simp: graph_steps_Tools add_messages_def
               split: option.splits message.splits sum.splits if_splits dest!: Suc.IH)
  qed
qed

text \<open>The chained example run, evaluated.\<close>

lemma chain_run:
  "run_graph chain_env ''a@b.c'' ''s3cret'' ''https://quiz.example/q1'' w0 =
     (\<lparr>clock = 3046 / 3, last_call_time = 3040 / 3,
       events = [Entered Agent, Called 1000 1002, Entered Tools,
                 Entered Agent, Slept (11 / 3), Called (3020 / 3) (3026 / 3), Entered Tools,
                 Entered Agent, Slept (11 / 3), Called (3040 / 3) (3046 / 3)]\<rparr>,
      None,
      \<lparr>messages =
         [HumanMessage ''Solve the quiz at this URL: https://quiz.example/q1'',
          AIMessage (Text []) [submit_call],
          ToolMessage submit_reply ''post_request'' ''call_1'',
          AIMessage (Text []) [scrape_call],
          ToolMessage ''<html></html>'' ''get_rendered_html'' ''call_2'',
          AIMessage (Text ''Quiz complete'') []],
       email = ''a@b.c'', secret = ''s3cret'', current_url = ''https://quiz.example/q1'',
       start_time = 1000, quiz_count = 1, max_time = 180\<rparr>)"
  by (simp add: run_graph_def recursion_limit_def graph_steps_Agent_pos graph_steps_Tools_pos
        chain_env_def initial_state_def prompt_def add_messages_def
        submit_call_def scrape_call_def Let_def gateway_after_def invoke_def w0_def enter_def
        time_sleep_def min_interval_def)

text \<open>
  On a conversation that ends with a reasoner message whose content is a text, the
  decision is "end" exactly when the message asks for no tool; "tools" is the decision
  exactly when it asks for one or more, whatever the content.
\<close>

lemma should_continue_text:
  "messages state \<noteq> [] \<Longrightarrow> last (messages state) = AIMessage c tcs \<Longrightarrow>
   (should_continue state = Inr ''tools'' \<longleftrightarrow> tcs \<noteq> [])
   \<and> ((\<exists>t. c = Text t) \<longrightarrow> (should_continue state = Inr ''end'' \<longleftrightarrow> tcs = []))"
  by (cases c) (auto simp: should_continue_last_ai)

text \<open>A run whose first answer is a text with no tool call ends after its one Reasoning step.\<close>

lemma run_graph_first_answer_text:
  assumes "respond e (prompt e (initial_state em sec url (clock w)) (clock w)) = Inr (Text t, [])"
  shows "run_graph e em sec url w =
     (gateway_after e (initial_state em sec url (clock w)) w, None,
      add_messages [AIMessage (Text t) []] (initial_state em sec url (clock w)))"
  using assms by (simp add: run_graph_def recursion_limit_def graph_steps_Agent_pos)

lemma str_contains_infix: "str_contains p (a @ p @ b)"
proof (induction a)
  case Nil
  show ?case
  proof (cases "p @ b")
    case Nil
    then show ?thesis by simp
  next
    case (Cons c cs)
    have "take (length p) (p @ b) = p" by simp
    with Cons show ?thesis by simp
  qed
next
  case (Cons x a)
  then show ?case by simp
qed

lemma context_msg_elapsed:
  "str_contains (''- Time elapsed: '' @ fmt_1f el @ ''s'') (context_msg s el rm)"
proof -
  have "context_msg s el rm =
      ([CHR 0x0A] @ ''Current context:'' @ [CHR 0x0A]
       @ ''- Email: '' @ email s @ [CHR 0x0A]
       @ ''- Secret: '' @ secret s @ [CHR 0x0A]
       @ ''- Current URL: '' @ current_url s @ [CHR 0x0A]
       @ ''- Quiz number: '' @ str_int (quiz_count s) @ [CHR 0x0A])
      @ (''- Time elapsed: '' @ fmt_1f el @ ''s'')
      @ ([CHR 0x0A] @ ''- Time remaining: '' @ fmt_1f rm @ ''s'' @ [CHR 0x0A] @ [CHR 0x0A]
         @ ''Start by scraping the current URL to see the quiz question.'')"
    by (simp add: context_msg_def)
  then show ?thesis by (simp only: str_contains_infix)
qed

lemma context_msg_remaining:
  "str_contains (''- Time remaining: '' @ fmt_1f rm @ ''s'') (context_msg s el rm)"
proof -
  have "context_msg s el rm =
      ([CHR 0x0A] @ ''Current context:'' @ [CHR 0x0A]
       @ ''- Email: '' @ email s @ [CHR 0x0A]
       @ ''- Secret: '' @ secret s @ [CHR 0x0A]
       @ ''- Current URL: '' @ current_url s @ [CHR 0x0A]
       @ ''- Quiz number: '' @ str_int (quiz_count s) @ [CHR 0x0A]
       @ ''- Time elapsed: '' @ fmt_1f el @ ''s'' @ [CHR 0x0A])
      @ (''- Time remaining: '' @ fmt_1f rm @ ''s'')
      @ ([CHR 0x0A] @ [CHR 0x0A]
         @ ''Start by scraping the current URL to see the quiz question.'')"
    by (simp add: context_msg_def)
  then show ?thesis by (simp only: str_contains_infix)
qed

lemma str_nat_small: "n < 10 \<Longrightarrow> str_nat n = [''0123456789'' ! n]"
  by (simp add: str_nat.simps)

lemma str_nat_large: "\<not> n < 10 \<Longrightarrow> str_nat n = str_nat (n div 10) @ [''0123456789'' ! (n mod 10)]"
  by (subst str_nat.simps) simp

lemma fmt_examples:
  "fmt_1f 1000 = ''1000.0''"
  "fmt_1f (- 820) = ''-820.0''"
  by (simp_all add: fmt_1f_def round_half_even_def Let_def str_nat_large str_nat_small)

lemma late_context:
  "context_msg late_state 1000 (- 820) =
     [CHR 0x0A] @ ''Current context:'' @ [CHR 0x0A]
     @ ''- Email: a@b.c'' @ [CHR 0x0A]
     @ ''- Secret: s3cret'' @ [CHR 0x0A]
     @ ''- Current URL: https://quiz.example/q1'' @ [CHR 0x0A]
     @ ''- Quiz number: 1'' @ [CHR 0x0A]
     @ ''- Time elapsed: 1000.0s'' @ [CHR 0x0A]
     @ ''- Time remaining: -820.0s'' @ [CHR 0x0A]
     @ [CHR 0x0A]
     @ ''Start by scraping the current URL to see the quiz question.''"
  by (simp add: context_msg_def late_state_def fmt_examples str_int_def str_nat_small)

section \<open>The gateway\<close>

lemma invoke_cut:
  "invoke e msgs w = issue e msgs (case wait_time w of None \<Rightarrow> w | Some d \<Rightarrow> time_sleep d w)"
  by (simp add: invoke_def issue_def wait_time_def Let_def)

text \<open>
  Between two invocations that follow one another, the stored timestamps are at least
  the minimum interval apart.
\<close>

lemma invoke_spacing:
  "last_call_time w + min_interval \<le> last_call_time (fst (invoke e msgs w))"
  by (simp add: invoke_def Let_def time_sleep_def)

lemma issue_times_append: "issue_times (xs @ ys) = issue_times xs @ issue_times ys"
  by (simp add: issue_times_def)

lemma issue_times_invoke:
  "issue_times (events (fst (invoke e msgs w))) =
     issue_times (events w) @ [last_call_time (fst (invoke e msgs w))]"
  by (simp add: invoke_def Let_def time_sleep_def issue_times_def)

lemma spaced_snoc:
  "spaced ts \<Longrightarrow> \<forall>t \<in> set ts. t + min_interval \<le> u \<Longrightarrow> spaced (ts @ [u])"
  by (induction ts rule: spaced.induct) auto

lemma min_interval_pos: "0 < min_interval"
  by (simp add: min_interval_def)

text \<open>
  Invocations that do not overlap issue their calls at least the minimum interval apart,
  whatever the idle times between them.
\<close>

lemma invoke_all_spaced:
  "spaced (issue_times (events w)) \<Longrightarrow>
   \<forall>t \<in> set (issue_times (events w)). t \<le> last_call_time w \<Longrightarrow>
   spaced (issue_times (events (invoke_all e reqs w)))"
proof (induction reqs arbitrary: w)
  case Nil
  then show ?case by simp
next
  case (Cons req reqs)
  obtain idle msgs where req: "req = (idle, msgs)" by (cases req)
  let ?w0 = "w\<lparr>clock := clock w + idle\<rparr>"
  let ?w1 = "fst (invoke e msgs ?w0)"
  have sp: "last_call_time w + min_interval \<le> last_call_time ?w1"
    using invoke_spacing [of ?w0 e msgs] by simp
  have ts: "issue_times (events ?w1) = issue_times (events w) @ [last_call_time ?w1]"
    using issue_times_invoke [of e msgs ?w0] by simp
  have a: "spaced (issue_times (events ?w1))"
    unfolding ts using Cons.prems sp by (intro spaced_snoc) auto
  have b: "\<forall>t \<in> set (issue_times (events ?w1)). t \<le> last_call_time ?w1"
    unfolding ts using Cons.prems(2) sp min_interval_pos by fastforce
  show ?case using Cons.IH [OF a b] req by simp
qed

text \<open>
  Two invocations that overlap at the sleep issue their calls at the same time: the
  second has read \<open>last_call_time\<close> before the first stored it.
\<close>

lemma invoke_overlapped_issue_times:
  "invoke_overlapped e msgs1 msgs2 delta w = Some w' \<Longrightarrow>
   issue_times (events w') =
     issue_times (events w) @ [last_call_time w + min_interval, last_call_time w + min_interval]"
  by (auto simp: invoke_overlapped_def wait_time_def issue_def time_sleep_def Let_def
        issue_times_def split: option.splits if_splits)

section \<open>download_file\<close>

lemma basename_no_slash: "CHR ''/'' \<notin> set (basename p)"
proof -
  have "\<forall>c \<in> set (takeWhile (\<lambda>c. c \<noteq> CHR ''/'') (rev p)). c \<noteq> CHR ''/''"
    by (auto dest: set_takeWhileD)
  then show ?thesis by (auto simp: basename_def)
qed

lemma basename_idem: "basename (basename p) = basename p"
proof -
  have "takeWhile (\<lambda>c. c \<noteq> CHR ''/'') (takeWhile (\<lambda>c. c \<noteq> CHR ''/'') (rev p))
        = takeWhile (\<lambda>c. c \<noteq> CHR ''/'') (rev p)"
    by (simp add: takeWhile_eq_all_conv)
  then show ?thesis by (simp add: basename_def)
qed

lemma path_join_LLMFiles:
  "CHR ''/'' \<notin> set b \<Longrightarrow> path_join ''LLMFiles'' b = ''LLMFiles/'' @ b"
  by (cases b) (auto simp: path_join_def)

lemma chosen_filename_no_slash:
  "chosen_filename d url filename = Inr fn \<Longrightarrow> CHR ''/'' \<notin> set fn"
  by (auto simp: chosen_filename_def basename_no_slash split: sum.splits option.splits)

lemma basename_under: "CHR ''/'' \<notin> set b \<Longrightarrow> basename (''LLMFiles/'' @ b) = b"
proof -
  assume a: "CHR ''/'' \<notin> set b"
  have "takeWhile (\<lambda>c. c \<noteq> CHR ''/'') (rev b @ rev ''LLMFiles/'') = rev b"
    using a by (subst takeWhile_append2) auto
  then show ?thesis by (simp add: basename_def)
qed

lemma open_wb_changes:
  assumes ns: "CHR ''/'' \<notin> set b" and op: "open_wb f (''LLMFiles/'' @ b) = Inr f2"
  shows "b \<notin> {[], ''.'', ''..''} \<and> f2 = f(''LLMFiles/'' @ b \<mapsto> File [])"
proof -
  have bn: "basename (''LLMFiles/'' @ b) = b" using ns by (rule basename_under)
  from op show ?thesis unfolding open_wb_def bn by (auto split: if_splits)
qed

lemma makedirs_changes: "makedirs f p = Inr f1 \<Longrightarrow> f1 = f(p \<mapsto> Dir)"
  by (auto simp: makedirs_def split: option.splits entry.splits)

lemma fst_download_file:
  "fst (download_file d url filename f) = fst (download_file_try d url filename f)"
  by (simp add: download_file_def split: prod.splits sum.splits)

lemma download_file_try_writes:
  assumes mk: "makedirs f ''LLMFiles'' = Inr f1"
    and ch: "chosen_filename d url filename = Inr fn"
  shows "fst (download_file_try d url filename f) = f1 \<or>
    (fn \<notin> {[], ''.'', ''..''} \<and>
     (\<exists>bytes. fst (download_file_try d url filename f) = f1(''LLMFiles/'' @ fn \<mapsto> File bytes)))"
proof -
  have ns: "CHR ''/'' \<notin> set fn" using ch by (rule chosen_filename_no_slash)
  have pj: "path_join ''LLMFiles'' fn = ''LLMFiles/'' @ fn" using ns by (rule path_join_LLMFiles)
  show ?thesis
  proof (cases "http_get d url")
    case (GetRaised x)
    then show ?thesis using mk ch by (simp add: download_file_try_def)
  next
    case (GetResponse status cl chunks broken)
    show ?thesis
    proof (cases "open_wb f1 (''LLMFiles/'' @ fn)")
      case (Inl x)
      then show ?thesis using mk ch GetResponse
        by (auto simp: download_file_try_def pj Let_def split: sum.splits option.splits)
    next
      case (Inr f2)
      from open_wb_changes [OF ns Inr]
      have ok: "fn \<notin> {[], ''.'', ''..''}" and f2: "f2 = f1(''LLMFiles/'' @ fn \<mapsto> File [])"
        by simp_all
      have "fst (download_file_try d url filename f) = f1 \<or>
            fst (download_file_try d url filename f) = f1(''LLMFiles/'' @ fn \<mapsto> File (concat chunks))"
        using mk ch GetResponse Inr f2
        by (auto simp: download_file_try_def pj Let_def split: sum.splits option.splits)
      with ok show ?thesis by blast
    qed
  qed
qed

lemma download_file_writes:
  assumes diff: "fst (download_file d url filename f) p \<noteq> f p"
  shows "p = ''LLMFiles'' \<or>
   (\<exists>fn. chosen_filename d url filename = Inr fn \<and> p = ''LLMFiles/'' @ fn
         \<and> CHR ''/'' \<notin> set fn \<and> fn \<notin> {[], ''.'', ''..''})"
proof (cases "makedirs f ''LLMFiles''")
  case (Inl x)
  with diff show ?thesis by (simp add: download_file_def download_file_try_def)
next
  case mk: (Inr f1)
  have f1: "f1 = f(''LLMFiles'' \<mapsto> Dir)" using mk by (rule makedirs_changes)
  show ?thesis
  proof (cases "chosen_filename d url filename")
    case (Inl x)
    with diff mk f1 show ?thesis
      by (auto simp: download_file_def download_file_try_def split: if_splits)
  next
    case (Inr fn)
    have ns: "CHR ''/'' \<notin> set fn" using Inr by (rule chosen_filename_no_slash)
    from download_file_try_writes [OF mk Inr] diff f1
    have "p = ''LLMFiles'' \<or> (p = ''LLMFiles/'' @ fn \<and> fn \<notin> {[], ''.'', ''..''})"
      by (auto simp: fst_download_file split: if_splits)
    with Inr ns show ?thesis by blast
  qed
qed

lemma example_dir: "makedirs Map.empty ''LLMFiles'' = Inr [''LLMFiles'' \<mapsto> Dir]"
  by (simp add: makedirs_def)

lemma example_name:
  "chosen_filename dl_404 ''https://files.example/files/data.csv'' None = Inr ''data.csv''"
  "chosen_filename dl_200 ''https://files.example/files/data.csv'' None = Inr ''data.csv''"
  "chosen_filename dl_203 ''https://files.example/files/data.csv'' None = Inr ''data.csv''"
  by (simp_all add: chosen_filename_def dl_404_def dl_200_def dl_203_def basename_def)

section \<open>post_request\<close>

text \<open>
  Whatever the body of the outer \<open>try\<close> raises, what leaves post_request is the NameError
  of the first \<open>except\<close> clause: the module never imports \<open>asyncio\<close>.
\<close>

lemma post_request_raises_name_error:
  "post_request_try p url payload = Inl x \<Longrightarrow>
   post_request p url payload =
     Inl (PyExn ''NameError'' (''name '' @ [CHR 0x27] @ ''asyncio'' @ [CHR 0x27] @ '' is not defined''))"
  by (simp add: post_request_def post_request_except_def read_global_def module_names_def)

text \<open>A payload that cannot be serialised is answered with the error object, as JSON.\<close>

lemma post_request_unserialisable:
  "json_dumps p None (PDict payload) = Inl x \<Longrightarrow>
   json_dumps p None (error_result (''Failed to serialize payload: '' @ exn_str x)) = Inr r \<Longrightarrow>
   post_request p url payload = Inr r"
  by (simp add: post_request_def post_request_try_def)

lemma submit_call_times_out:
  "post_request_tool post_timeout submit_call =
     Inl (PyExn ''NameError'' (''name '' @ [CHR 0x27] @ ''asyncio'' @ [CHR 0x27] @ '' is not defined''))"
  by (simp add: post_request_tool_def submit_call_def post_request_def post_request_try_def
        post_request_except_def read_global_def module_names_def post_timeout_def)

section \<open>The claims\<close>

text \<open>
  C1, at a reasoner message that asks for no tool and whose content is a list of parts:
  \<open>should_continue\<close> raises AttributeError instead of answering "end", and the run of
  \<open>run_agent\<close> whose first answer is such a message is reported failed after its one
  Reasoning step instead of ending.
\<close>

theorem should_continue_parts_raises:
  "should_continue
     (add_messages
        [AIMessage (Parts [PDict [(''type'', PStr ''text''), (''text'', PStr ''The quiz is done.'')]]) []]
        late_state) = Inl attribute_error
   \<and> run_graph parts_env ''a@b.c'' ''s3cret'' ''https://quiz.example/q1'' w0 =
       (\<lparr>clock = 1002, last_call_time = 1000, events = [Entered Agent, Called 1000 1002]\<rparr>,
        Some attribute_error,
        \<lparr>messages =
           [HumanMessage ''Solve the quiz at this URL: https://quiz.example/q1'',
            AIMessage (Parts [PDict [(''type'', PStr ''text''), (''text'', PStr ''The quiz is done.'')]]) []],
         email = ''a@b.c'', secret = ''s3cret'', current_url = ''https://quiz.example/q1'',
         start_time = 1000, quiz_count = 1, max_time = 180\<rparr>)
   \<and> snd (run_agent parts_env ''a@b.c'' ''s3cret'' ''https://quiz.example/q1'' w0) =
       Failure (exn_str attribute_error) 2"
proof -
  have run: "run_graph parts_env ''a@b.c'' ''s3cret'' ''https://quiz.example/q1'' w0 =
       (\<lparr>clock = 1002, last_call_time = 1000, events = [Entered Agent, Called 1000 1002]\<rparr>,
        Some attribute_error,
        \<lparr>messages =
           [HumanMessage ''Solve the quiz at this URL: https://quiz.example/q1'',
            AIMessage (Parts [PDict [(''type'', PStr ''text''), (''text'', PStr ''The quiz is done.'')]]) []],
         email = ''a@b.c'', secret = ''s3cret'', current_url = ''https://quiz.example/q1'',
         start_time = 1000, quiz_count = 1, max_time = 180\<rparr>)"
    by (simp add: run_graph_def recursion_limit_def graph_steps_Agent_pos parts_env_def
          silent_env_def initial_state_def add_messages_def gateway_after_def invoke_def
          Let_def w0_def enter_def min_interval_def)
  have now: "clock w0 = 1000"
    by (simp add: w0_def)
  show ?thesis
    by (simp add: should_continue_ai run_agent_def run now)
qed

text \<open>
  C2, at two invocations that overlap: 3 seconds after a call issued at 1000, one
  invocation starts to sleep; a second one starts a second later, while the first is
  asleep. Both read the same \<open>last_call_time\<close>, both wake at 3020/3 and both issue their
  call then: the log has two calls no time apart, less than the minimum interval.
\<close>

theorem invoke_overlapped_same_time:
  "invoke_overlapped silent_env [] [] 1 w_called =
     Some \<lparr>clock = 3026 / 3, last_call_time = 3020 / 3,
           events = [Called 1000 1002, Slept (11 / 3), Called (3020 / 3) (3026 / 3),
                     Slept (8 / 3), Called (3020 / 3) (3026 / 3)]\<rparr>
   \<and> issue_times [Called 1000 1002, Slept (11 / 3), Called (3020 / 3) (3026 / 3),
                   Slept (8 / 3), Called (3020 / 3) (3026 / 3)] = [1000, 3020 / 3, 3020 / 3]
   \<and> \<not> spaced [1000, 3020 / 3, 3020 / 3]"
  by (simp add: invoke_overlapped_def wait_time_def issue_def time_sleep_def Let_def
        w_called_def silent_env_def min_interval_def issue_times_def)

text \<open>
  C3, as the code has it. A run starts with the task counter at 1 and no Reasoning or
  Acting step writes it, also when a tool result brings a new reference: the counter of
  the final state is 1, and so is the count in the report of a run that reached END (the
  report of a failed run carries no count). \<open>should_continue\<close> does not read the counter.
\<close>

theorem quiz_count_stays_one:
  "(case run_graph e em sec url w of (w', out, final) \<Rightarrow> quiz_count final = 1)
   \<and> (case snd (run_agent e em sec url w) of Success t n \<Rightarrow> n = 1 | Failure msg t \<Rightarrow> True)
   \<and> should_continue (s\<lparr>quiz_count := k\<rparr>) = should_continue s"
proof -
  obtain w' out final where run: "run_graph e em sec url w = (w', out, final)"
    by (cases "run_graph e em sec url w")
  then have g: "graph_steps e recursion_limit Agent (initial_state em sec url (clock w)) w = (w', out, final)"
    by (simp add: run_graph_def)
  have "quiz_count final = 1"
    using graph_steps_fields [OF g] by (simp add: initial_state_def)
  with run show ?thesis
    by (simp add: run_agent_def should_continue_def split: option.splits)
qed

text \<open>
  C3 as stated fails: in the chained example run the reply to the submission names the
  next quiz and the reasoner goes on to scrape it, yet the counter of the final state and
  the count of the report are still 1.
\<close>

theorem quiz_count_counterexample:
  "messages (snd (snd (run_graph chain_env ''a@b.c'' ''s3cret'' ''https://quiz.example/q1'' w0))) =
     [HumanMessage ''Solve the quiz at this URL: https://quiz.example/q1'',
      AIMessage (Text []) [submit_call],
      ToolMessage submit_reply ''post_request'' ''call_1'',
      AIMessage (Text []) [scrape_call],
      ToolMessage ''<html></html>'' ''get_rendered_html'' ''call_2'',
      AIMessage (Text ''Quiz complete'') []]
   \<and> str_contains ''https://quiz.example/q2'' submit_reply
   \<and> quiz_count (snd (snd (run_graph chain_env ''a@b.c'' ''s3cret'' ''https://quiz.example/q1'' w0))) = 1
   \<and> snd (run_agent chain_env ''a@b.c'' ''s3cret'' ''https://quiz.example/q1'' w0) = Success (46 / 3) 1"
proof -
  have found: "str_contains ''https://quiz.example/q2'' submit_reply"
    by (simp add: submit_reply_def)
  have now: "clock w0 = 1000"
    by (simp add: w0_def)
  show ?thesis
    using found by (simp add: run_agent_def chain_run now)
qed

text \<open>
  C4, as the code has it. An invocation measures the time since the stored timestamp;
  when that is less than the minimum interval it sleeps for exactly the difference; it
  then stores the clock, before the call is made, and that stored time, at which the call
  is issued, is what the next invocation compares with.
\<close>

theorem invoke_stores_issue_time:
  "(let gap = clock w - last_call_time w;
        issued = (if gap < min_interval then last_call_time w + min_interval else clock w);
        w' = fst (invoke e msgs w)
    in events w' = events w @ (if gap < min_interval then [Slept (min_interval - gap)] else [])
                   @ [Called issued (issued + latency e msgs)]
       \<and> last_call_time w' = issued
       \<and> clock w' = issued + latency e msgs)"
  by (simp add: invoke_def Let_def time_sleep_def)

text \<open>
  C4 as stated fails: 3 seconds after a call, an invocation sleeps 11/3 seconds, issues
  its call at 3020/3 and gets the answer at 3026/3; the timestamp it leaves for the next
  comparison is 3020/3, the time before the call, not the time the call returned.
\<close>

theorem invoke_counterexample:
  "events (fst (invoke silent_env [] w_recent)) = [Slept (11 / 3), Called (3020 / 3) (3026 / 3)]
   \<and> clock (fst (invoke silent_env [] w_recent)) = 3026 / 3
   \<and> last_call_time (fst (invoke silent_env [] w_recent)) = 3020 / 3
   \<and> last_call_time (fst (invoke silent_env [] w_recent)) \<noteq> clock (fst (invoke silent_env [] w_recent))"
  by (simp add: invoke_def Let_def time_sleep_def w_recent_def silent_env_def min_interval_def)

text \<open>
  C5, at a request that times out: the payload serialises, \<open>session.post\<close> raises
  TimeoutError, and post_request raises NameError instead of returning the error object
  its \<open>except asyncio.TimeoutError\<close> clause was written to return.
\<close>

theorem post_request_timeout_raises:
  "post_request post_timeout ''https://quiz.example/submit'' [(''answer'', PInt 42)] =
     Inl (PyExn ''NameError'' (''name '' @ [CHR 0x27] @ ''asyncio'' @ [CHR 0x27] @ '' is not defined''))"
  by (simp add: post_request_def post_request_try_def post_request_except_def read_global_def
        module_names_def post_timeout_def)

text \<open>
  C6. A run enters at most \<open>recursion_limit\<close> = 200 nodes, so it makes at most 200 round
  trips (in fact at most 100, a round trip being two nodes). When every answer of the
  reasoner asks for a tool, the run never reaches END: it is ended by an exception and
  \<open>run_agent\<close> reports the failure; when moreover no tool raises, the exception is
  GraphRecursionError, after exactly 200 nodes and 100 round trips.
\<close>

theorem run_stops_at_recursion_limit:
  "(case run_graph e em sec url w of (w', out, final) \<Rightarrow>
      length (steps_of (events w')) \<le> length (steps_of (events w)) + recursion_limit
      \<and> round_trips (events w') \<le> round_trips (events w) + recursion_limit div 2
      \<and> round_trips (events w') \<le> round_trips (events w) + recursion_limit)
   \<and> ((\<forall>msgs. \<exists>c tcs. respond e msgs = Inr (c, tcs) \<and> tcs \<noteq> []) \<longrightarrow>
      (case run_graph e em sec url w of (w', out, final) \<Rightarrow>
         out \<noteq> None
         \<and> ((\<forall>tc. \<exists>r. run_tool e tc = Inr r) \<longrightarrow>
              out = Some recursion_error
              \<and> length (steps_of (events w')) = length (steps_of (events w)) + recursion_limit
              \<and> round_trips (events w') = round_trips (events w) + recursion_limit div 2))
      \<and> (\<exists>msg t. snd (run_agent e em sec url w) = Failure msg t)
      \<and> ((\<forall>tc. \<exists>r. run_tool e tc = Inr r) \<longrightarrow>
           (\<exists>t. snd (run_agent e em sec url w) = Failure (exn_str recursion_error) t)))"
proof -
  obtain w' out final where run: "run_graph e em sec url w = (w', out, final)"
    by (cases "run_graph e em sec url w")
  then have g: "graph_steps e recursion_limit Agent (initial_state em sec url (clock w)) w = (w', out, final)"
    by (simp add: run_graph_def)
  have a: "length (steps_of (events w')) \<le> length (steps_of (events w)) + recursion_limit"
    using graph_steps_length [OF g] .
  have b: "round_trips (events w') \<le> round_trips (events w) + recursion_limit div 2"
    using graph_steps_round_trips [OF g] by simp
  have c: "(\<forall>msgs. \<exists>c tcs. respond e msgs = Inr (c, tcs) \<and> tcs \<noteq> []) \<Longrightarrow>
     (\<forall>tc. \<exists>r. run_tool e tc = Inr r) \<Longrightarrow>
     out = Some recursion_error
     \<and> length (steps_of (events w')) = length (steps_of (events w)) + recursion_limit
     \<and> round_trips (events w') = round_trips (events w) + recursion_limit div 2"
    using graph_steps_always_tools [OF _ _ _ g] by simp
  have d: "(\<forall>msgs. \<exists>c tcs. respond e msgs = Inr (c, tcs) \<and> tcs \<noteq> []) \<Longrightarrow> out \<noteq> None"
    using graph_steps_never_ends [OF _ g] .
  show ?thesis using run a b c d by (auto simp: run_agent_def)
qed

theorem run_stops_at_recursion_limit_witness:
  "(\<forall>msgs. \<exists>c tcs. respond busy_env msgs = Inr (c, tcs) \<and> tcs \<noteq> [])
   \<and> (\<forall>tc. \<exists>r. run_tool busy_env tc = Inr r)
   \<and> (case run_graph busy_env ''a@b.c'' ''s3cret'' ''https://quiz.example/q1'' w0 of
        (w', out, final) \<Rightarrow>
          out = Some recursion_error \<and> length (steps_of (events w')) = 200
          \<and> round_trips (events w') = 100)
   \<and> (\<exists>t. snd (run_agent busy_env ''a@b.c'' ''s3cret'' ''https://quiz.example/q1'' w0)
            = Failure ''Recursion limit reached without hitting a stop condition'' t)"
proof -
  have h: "\<forall>msgs. \<exists>c tcs. respond busy_env msgs = Inr (c, tcs) \<and> tcs \<noteq> []"
    by (simp add: busy_env_def)
  have t: "\<forall>tc. \<exists>r. run_tool busy_env tc = Inr r"
    by (simp add: busy_env_def silent_env_def)
  show ?thesis
    using h t run_stops_at_recursion_limit [where e = busy_env and em = "''a@b.c''" and sec = "''s3cret''"
        and url = "''https://quiz.example/q1''" and w = w0]
    by (simp add: w0_def round_trips_def recursion_limit_def recursion_error_def split: prod.splits)
qed

text \<open>
  In every run of \<open>run_agent\<close> that reaches END, and in every run whose tools do not raise,
  the tool-result messages answer the requested calls one for one, in the order of the
  requests.
\<close>

lemma run_graph_answers:
  "run_graph e em sec url w = (w', out, final) \<Longrightarrow>
   out = None \<or> (\<forall>tc. \<exists>r. run_tool e tc = Inr r) \<Longrightarrow>
   answered (messages final) = requested (messages final)"
proof -
  assume run: "run_graph e em sec url w = (w', out, final)"
    and ok: "out = None \<or> (\<forall>tc. \<exists>r. run_tool e tc = Inr r)"
  from run have g: "graph_steps e recursion_limit Agent (initial_state em sec url (clock w)) w = (w', out, final)"
    by (simp add: run_graph_def)
  show ?thesis
    by (rule graph_steps_answers [OF _ _ g])
       (use ok in \<open>auto simp: initial_state_def answered_def requested_def recursion_limit_def\<close>)
qed

text \<open>
  C7, at a run whose submission times out: the reasoner asks for post_request, the tool
  raises NameError (its missing import, as in C5), the tool node lets the exception
  through, and the run is reported failed in its Acting step with one tool call
  requested and no tool-result message appended.
\<close>

theorem tool_exception_leaves_request_unanswered:
  "run_graph timeout_env ''a@b.c'' ''s3cret'' ''https://quiz.example/q1'' w0 =
     (\<lparr>clock = 1003, last_call_time = 1000,
       events = [Entered Agent, Called 1000 1002, Entered Tools]\<rparr>,
      Some (PyExn ''NameError'' (''name '' @ [CHR 0x27] @ ''asyncio'' @ [CHR 0x27] @ '' is not defined'')),
      \<lparr>messages =
         [HumanMessage ''Solve the quiz at this URL: https://quiz.example/q1'',
          AIMessage (Text []) [submit_call]],
       email = ''a@b.c'', secret = ''s3cret'', current_url = ''https://quiz.example/q1'',
       start_time = 1000, quiz_count = 1, max_time = 180\<rparr>)
   \<and> requested [HumanMessage ''Solve the quiz at this URL: https://quiz.example/q1'',
                 AIMessage (Text []) [submit_call]] = [(''post_request'', ''call_1'')]
   \<and> answered [HumanMessage ''Solve the quiz at this URL: https://quiz.example/q1'',
                AIMessage (Text []) [submit_call]] = []
   \<and> snd (run_agent timeout_env ''a@b.c'' ''s3cret'' ''https://quiz.example/q1'' w0) =
       Failure (''name '' @ [CHR 0x27] @ ''asyncio'' @ [CHR 0x27] @ '' is not defined'') 3"
proof -
  have tool: "run_tool timeout_env submit_call =
      Inl (PyExn ''NameError'' (''name '' @ [CHR 0x27] @ ''asyncio'' @ [CHR 0x27] @ '' is not defined''))"
    using submit_call_times_out by (simp add: timeout_env_def submit_call_def)
  have first: "respond timeout_env msgs = (if length (filter is_tool msgs) = 0 then Inr (Text [], [submit_call])
         else if length (filter is_tool msgs) = 1 then Inr (Text [], [scrape_call])
         else Inr (Text ''Quiz complete'', []))" for msgs
    by (simp add: timeout_env_def chain_env_def)
  have other: "latency timeout_env msgs = 2" "tools_time timeout_env tcs = 1"
    "system_prompt timeout_env = ''You are an autonomous agent.''" for msgs tcs
    by (simp_all add: timeout_env_def chain_env_def)
  have nonempty: "[submit_call] \<noteq> []" by simp
  have run: "run_graph timeout_env ''a@b.c'' ''s3cret'' ''https://quiz.example/q1'' w0 =
     (\<lparr>clock = 1003, last_call_time = 1000,
       events = [Entered Agent, Called 1000 1002, Entered Tools]\<rparr>,
      Some (PyExn ''NameError'' (''name '' @ [CHR 0x27] @ ''asyncio'' @ [CHR 0x27] @ '' is not defined'')),
      \<lparr>messages =
         [HumanMessage ''Solve the quiz at this URL: https://quiz.example/q1'',
          AIMessage (Text []) [submit_call]],
       email = ''a@b.c'', secret = ''s3cret'', current_url = ''https://quiz.example/q1'',
       start_time = 1000, quiz_count = 1, max_time = 180\<rparr>)"
    by (simp add: run_graph_def recursion_limit_def graph_steps_Agent_pos graph_steps_Tools_pos
          first other tool initial_state_def prompt_def add_messages_def Let_def
          gateway_after_def invoke_def w0_def enter_def min_interval_def)
  have now: "clock w0 = 1000"
    by (simp add: w0_def)
  have keys: "requested [HumanMessage ''Solve the quiz at this URL: https://quiz.example/q1'',
                 AIMessage (Text []) [submit_call]] = [(''post_request'', ''call_1'')]"
    "answered [HumanMessage ''Solve the quiz at this URL: https://quiz.example/q1'',
                AIMessage (Text []) [submit_call]] = []"
    by (simp_all add: requested_def answered_def call_key_def submit_call_def)
  show ?thesis
    by (simp add: run keys run_agent_def now)
qed

text \<open>
  C8. \<open>should_continue\<close> reads the conversation only: two states with the same messages
  get the same decision, whatever their start timestamps and maximum durations. The
  Reasoning step appends for the reasoner a context message whose text holds the lines
  "- Time elapsed: <elapsed>s" and "- Time remaining: <remaining>s", with the elapsed
  time \<open>now - start_time\<close> and the remaining time \<open>max_time - elapsed\<close> to one decimal; and
  a Reasoning step whose answer asks for a tool goes on to the Acting step wherever the
  clock stands, also past the deadline.
\<close>

theorem deadline_is_advisory:
  "(messages s1 = messages s2 \<longrightarrow> should_continue s1 = should_continue s2)
   \<and> last (prompt e s now) =
       HumanMessage (context_msg s (now - start_time s) (max_time s - (now - start_time s)))
   \<and> str_contains (''- Time elapsed: '' @ fmt_1f (now - start_time s) @ ''s'')
        (context_msg s (now - start_time s) (max_time s - (now - start_time s)))
   \<and> str_contains (''- Time remaining: '' @ fmt_1f (max_time s - (now - start_time s)) @ ''s'')
        (context_msg s (now - start_time s) (max_time s - (now - start_time s)))
   \<and> (respond e (prompt e s (clock w)) = Inr (c, tcs) \<and> tcs \<noteq> [] \<longrightarrow>
        graph_steps e (Suc n) Agent s w =
          graph_steps e n Tools (add_messages [AIMessage c tcs] s) (gateway_after e s w))"
proof (intro conjI impI)
  assume "messages s1 = messages s2"
  then show "should_continue s1 = should_continue s2"
    by (simp add: should_continue_def)
next
  show "last (prompt e s now) =
       HumanMessage (context_msg s (now - start_time s) (max_time s - (now - start_time s)))"
    by (simp add: prompt_def Let_def)
next
  show "str_contains (''- Time elapsed: '' @ fmt_1f (now - start_time s) @ ''s'')
        (context_msg s (now - start_time s) (max_time s - (now - start_time s)))"
    by (rule context_msg_elapsed)
next
  show "str_contains (''- Time remaining: '' @ fmt_1f (max_time s - (now - start_time s)) @ ''s'')
        (context_msg s (now - start_time s) (max_time s - (now - start_time s)))"
    by (rule context_msg_remaining)
next
  assume "respond e (prompt e s (clock w)) = Inr (c, tcs) \<and> tcs \<noteq> []"
  then show "graph_steps e (Suc n) Agent s w =
          graph_steps e n Tools (add_messages [AIMessage c tcs] s) (gateway_after e s w)"
    by (simp add: graph_steps_Agent)
qed

theorem deadline_is_advisory_witness:
  "messages late_state = messages fresh_state
   \<and> start_time late_state + max_time late_state < clock w0
   \<and> clock w0 < start_time fresh_state + max_time fresh_state
   \<and> should_continue late_state = should_continue fresh_state
   \<and> should_continue late_state = Inr ''tools''
   \<and> last (prompt busy_env late_state 1000) = HumanMessage (context_msg late_state 1000 (- 820))
   \<and> context_msg late_state 1000 (- 820) =
       [CHR 0x0A] @ ''Current context:'' @ [CHR 0x0A]
       @ ''- Email: a@b.c'' @ [CHR 0x0A]
       @ ''- Secret: s3cret'' @ [CHR 0x0A]
       @ ''- Current URL: https://quiz.example/q1'' @ [CHR 0x0A]
       @ ''- Quiz number: 1'' @ [CHR 0x0A]
       @ ''- Time elapsed: 1000.0s'' @ [CHR 0x0A]
       @ ''- Time remaining: -820.0s'' @ [CHR 0x0A]
       @ [CHR 0x0A]
       @ ''Start by scraping the current URL to see the quiz question.''
   \<and> str_contains ''- Time elapsed: 1000.0s'' (context_msg late_state 1000 (- 820))
   \<and> str_contains ''- Time remaining: -820.0s'' (context_msg late_state 1000 (- 820))
   \<and> graph_steps busy_env (Suc 1) Agent late_state w0 =
       graph_steps busy_env 1 Tools (add_messages [AIMessage (Text []) [scrape_call]] late_state)
         (gateway_after busy_env late_state w0)"
proof -
  have 1: "messages late_state = messages fresh_state"
    by (simp add: fresh_state_def)
  have 2: "respond busy_env (prompt busy_env late_state (clock w0)) = Inr (Text [], [scrape_call])
           \<and> [scrape_call] \<noteq> []"
    by (simp add: busy_env_def)
  have 3: "start_time late_state = 0" "max_time late_state = 180"
    "start_time fresh_state = 1000" "max_time fresh_state = 180" "clock w0 = 1000"
    by (simp_all add: late_state_def fresh_state_def w0_def)
  have 4: "should_continue late_state = Inr ''tools''"
    by (simp add: late_state_def should_continue_def Let_def)
  from deadline_is_advisory [where ?s1.0 = late_state and ?s2.0 = fresh_state
        and e = busy_env and s = late_state and now = 1000 and w = w0 and c = "Text []"
        and tcs = "[scrape_call]" and n = 1]
  have "should_continue late_state = should_continue fresh_state
    \<and> last (prompt busy_env late_state 1000) = HumanMessage (context_msg late_state 1000 (- 820))
    \<and> str_contains ''- Time elapsed: 1000.0s'' (context_msg late_state 1000 (- 820))
    \<and> str_contains ''- Time remaining: -820.0s'' (context_msg late_state 1000 (- 820))
    \<and> graph_steps busy_env (Suc 1) Agent late_state w0 =
       graph_steps busy_env 1 Tools (add_messages [AIMessage (Text []) [scrape_call]] late_state)
         (gateway_after busy_env late_state w0)"
    using 1 2 by (simp add: 3 fmt_examples)
  then show ?thesis
    using 1 3 4 late_context by simp
qed

text \<open>
  C9, as the code has it. When the request gives a response, every status other than 200
  (404, and also the other 2xx) makes download_file return the text
  "Error: Failed to download: HTTP <status>" and store nothing; status 200 with a
  Content-Length that is absent, empty or an integer, a target that can be opened and a
  body that arrives whole makes it store the body and return the path in LLMFiles.
  Nothing is raised: what the body of the function raises is returned as text.
\<close>

theorem download_file_by_status:
  "makedirs f ''LLMFiles'' = Inr f1 \<and> chosen_filename d url filename = Inr fn
   \<and> http_get d url = GetResponse status cl chunks broken \<longrightarrow>
     (status \<noteq> 200 \<longrightarrow>
        download_file d url filename f =
          (f1, ''Error: Failed to download: HTTP '' @ str_int status))
     \<and> (status = 200
        \<and> (case cl of None \<Rightarrow> True | Some t \<Rightarrow> t = [] \<or> (\<exists>n. py_int d t = Inr n))
        \<and> open_wb f1 (''LLMFiles/'' @ fn) = Inr f2 \<and> broken = None \<longrightarrow>
        download_file d url filename f =
          (f1(''LLMFiles/'' @ fn \<mapsto> File (concat chunks)), ''LLMFiles/'' @ fn))"
proof (intro impI conjI)
  assume a: "makedirs f ''LLMFiles'' = Inr f1 \<and> chosen_filename d url filename = Inr fn
   \<and> http_get d url = GetResponse status cl chunks broken"
  assume "status \<noteq> 200"
  with a show "download_file d url filename f =
          (f1, ''Error: Failed to download: HTTP '' @ str_int status)"
    by (simp add: download_file_def download_file_try_def)
next
  assume a: "makedirs f ''LLMFiles'' = Inr f1 \<and> chosen_filename d url filename = Inr fn
   \<and> http_get d url = GetResponse status cl chunks broken"
  assume b: "status = 200
        \<and> (case cl of None \<Rightarrow> True | Some t \<Rightarrow> t = [] \<or> (\<exists>n. py_int d t = Inr n))
        \<and> open_wb f1 (''LLMFiles/'' @ fn) = Inr f2 \<and> broken = None"
  have ns: "CHR ''/'' \<notin> set fn" using a by (auto dest: chosen_filename_no_slash)
  have pj: "path_join ''LLMFiles'' fn = ''LLMFiles/'' @ fn" using ns by (rule path_join_LLMFiles)
  have f2: "f2 = f1(''LLMFiles/'' @ fn \<mapsto> File [])"
    using open_wb_changes [OF ns] b by blast
  show "download_file d url filename f =
          (f1(''LLMFiles/'' @ fn \<mapsto> File (concat chunks)), ''LLMFiles/'' @ fn)"
    using a b f2
    by (auto simp: download_file_def download_file_try_def pj Let_def split: option.splits)
qed

theorem download_file_by_status_witness:
  "download_file dl_404 ''https://files.example/files/data.csv'' None Map.empty =
     ([''LLMFiles'' \<mapsto> Dir], ''Error: Failed to download: HTTP 404'')
   \<and> str_contains ''404'' ''Error: Failed to download: HTTP 404''
   \<and> download_file dl_200 ''https://files.example/files/data.csv'' None Map.empty =
     ([''LLMFiles'' \<mapsto> Dir, ''LLMFiles/data.csv'' \<mapsto> File ''col1,col2''], ''LLMFiles/data.csv'')"
proof -
  have g4: "http_get dl_404 ''https://files.example/files/data.csv'' = GetResponse 404 (Some ''9'') [''Not '', ''Found''] None"
    by (simp add: dl_404_def)
  have g2: "http_get dl_200 ''https://files.example/files/data.csv'' = GetResponse 200 (Some ''9'') [''col1,'', ''col2''] None"
    by (simp add: dl_200_def dl_404_def)
  have cl: "case Some ''9'' of None \<Rightarrow> True | Some t \<Rightarrow> t = [] \<or> (\<exists>n. py_int dl_200 t = Inr n)"
    by (simp add: dl_200_def dl_404_def)
  have op: "open_wb [''LLMFiles'' \<mapsto> Dir] (''LLMFiles/'' @ ''data.csv'') =
      Inr [''LLMFiles'' \<mapsto> Dir, ''LLMFiles/data.csv'' \<mapsto> File []]"
    by (simp add: open_wb_def basename_def)
  have s404: "str_int 404 = ''404''"
    by (simp add: str_int_def str_nat_large str_nat_small)
  show ?thesis
    using example_dir example_name g4 g2 cl op
      download_file_by_status [where f = Map.empty and ?f1.0 = "[''LLMFiles'' \<mapsto> Dir]"
        and d = dl_404 and url = "''https://files.example/files/data.csv''" and filename = None
        and fn = "''data.csv''" and status = 404 and cl = "Some ''9''"
        and chunks = "[''Not '', ''Found'']" and broken = None]
      download_file_by_status [where f = Map.empty and ?f1.0 = "[''LLMFiles'' \<mapsto> Dir]"
        and d = dl_200 and url = "''https://files.example/files/data.csv''" and filename = None
        and fn = "''data.csv''" and status = 200 and cl = "Some ''9''"
        and chunks = "[''col1,'', ''col2'']" and broken = None
        and ?f2.0 = "[''LLMFiles'' \<mapsto> Dir, ''LLMFiles/data.csv'' \<mapsto> File []]"]
    by (simp add: s404)
qed

text \<open>
  C9 as stated fails for a 2xx status other than 200: a response 203 with a body gets the
  error text, and no file is stored.
\<close>

theorem download_file_counterexample:
  "download_file dl_203 ''https://files.example/files/data.csv'' None Map.empty =
     ([''LLMFiles'' \<mapsto> Dir], ''Error: Failed to download: HTTP 203'')"
proof -
  have s203: "str_int 203 = ''203''"
    by (simp add: str_int_def str_nat_large str_nat_small)
  have g: "http_get dl_203 ''https://files.example/files/data.csv'' =
      GetResponse 203 (Some ''9'') [''col1,'', ''col2''] None"
    by (simp add: dl_203_def dl_404_def)
  show ?thesis
    by (simp add: download_file_def download_file_try_def example_dir example_name g s203)
qed

text \<open>
  C10. The name download_file uses is the basename of the filename argument (of the last
  part of the URL's path, or of "downloaded_file", when there is no argument): it contains
  no separator, and the path written is "LLMFiles/" followed by that name. A call changes
  the file system at no other path: the LLMFiles directory itself, and that one file
  directly inside it, whose name is neither empty nor "." nor "..".
\<close>

theorem download_file_stays_in_LLMFiles:
  "chosen_filename d url (Some name) = Inr (basename name)
   \<and> (urlparse_path d url = Inr path \<longrightarrow>
        chosen_filename d url None =
          Inr (if basename path = [] then ''downloaded_file'' else basename path))
   \<and> (chosen_filename d url filename = Inr fn \<longrightarrow>
        CHR ''/'' \<notin> set fn \<and> path_join ''LLMFiles'' fn = ''LLMFiles/'' @ fn)
   \<and> (fst (download_file d url filename f) p \<noteq> f p \<longrightarrow>
        p = ''LLMFiles'' \<or>
        (\<exists>fn. chosen_filename d url filename = Inr fn \<and> p = path_join ''LLMFiles'' fn
              \<and> CHR ''/'' \<notin> set fn \<and> fn \<notin> {[], ''.'', ''..''}))"
proof (intro conjI impI)
  show "chosen_filename d url (Some name) = Inr (basename name)"
    by (simp add: chosen_filename_def)
next
  assume "urlparse_path d url = Inr path"
  then show "chosen_filename d url None =
      Inr (if basename path = [] then ''downloaded_file'' else basename path)"
    by (simp add: chosen_filename_def basename_idem Let_def) (simp add: basename_def)
next
  assume "chosen_filename d url filename = Inr fn"
  then show "CHR ''/'' \<notin> set fn" by (rule chosen_filename_no_slash)
next
  assume "chosen_filename d url filename = Inr fn"
  then show "path_join ''LLMFiles'' fn = ''LLMFiles/'' @ fn"
    by (intro path_join_LLMFiles chosen_filename_no_slash)
next
  assume "fst (download_file d url filename f) p \<noteq> f p"
  from download_file_writes [OF this]
  show "p = ''LLMFiles'' \<or>
        (\<exists>fn. chosen_filename d url filename = Inr fn \<and> p = path_join ''LLMFiles'' fn
              \<and> CHR ''/'' \<notin> set fn \<and> fn \<notin> {[], ''.'', ''..''})"
    by (auto simp: path_join_LLMFiles)
qed

theorem download_file_stays_in_LLMFiles_witness:
  "chosen_filename dl_200 ''https://files.example/files/data.csv'' (Some ''../../etc/passwd'') = Inr ''passwd''
   \<and> urlparse_path dl_200 ''https://files.example/files/data.csv'' = Inr ''/files/data.csv''
   \<and> chosen_filename dl_200 ''https://files.example/files/data.csv'' None = Inr ''data.csv''
   \<and> path_join ''LLMFiles'' ''passwd'' = ''LLMFiles/passwd''
   \<and> fst (download_file dl_200 ''https://files.example/files/data.csv'' (Some ''../../etc/passwd'') Map.empty)
       ''LLMFiles/passwd'' = Some (File ''col1,col2'')
   \<and> fst (download_file dl_200 ''https://files.example/files/data.csv'' (Some ''../../etc/passwd'') Map.empty)
       ''../../etc/passwd'' = None"
proof -
  have u: "urlparse_path dl_200 ''https://files.example/files/data.csv'' = Inr ''/files/data.csv''"
    by (simp add: dl_200_def dl_404_def)
  have b: "basename ''../../etc/passwd'' = ''passwd''" "basename ''/files/data.csv'' = ''data.csv''"
    by (simp_all add: basename_def)
  have w: "fst (download_file dl_200 ''https://files.example/files/data.csv'' (Some ''../../etc/passwd'') Map.empty)
       = [''LLMFiles'' \<mapsto> Dir, ''LLMFiles/passwd'' \<mapsto> File ''col1,col2'']"
    by (simp add: download_file_def download_file_try_def example_dir chosen_filename_def b
          dl_200_def dl_404_def path_join_def open_wb_def Let_def basename_def)
  have c: "fst (download_file dl_200 ''https://files.example/files/data.csv'' (Some ''../../etc/passwd'') Map.empty)
       ''LLMFiles/passwd'' \<noteq> Map.empty ''LLMFiles/passwd''"
    by (simp add: w)
  show ?thesis
    using u c download_file_stays_in_LLMFiles [where d = dl_200
        and url = "''https://files.example/files/data.csv''" and name = "''../../etc/passwd''"
        and path = "''/files/data.csv''" and filename = "Some ''../../etc/passwd''"
        and fn = "''passwd''" and f = Map.empty and p = "''LLMFiles/passwd''"]
    by (simp add: b w)
qed

end
